theory Spec2Isabelle
  imports Main "HOL-Library.Word"
begin

section \<open>Data model\<close>

subsection \<open>Tags\<close>

text \<open>
  The tag array \<^verbatim>\<open>char **Tags\<close> is indexed by the enumeration \<^verbatim>\<open>TagName\<close>; an entry is
  either \<^verbatim>\<open>NULL\<close> (\<open>None\<close>) or a string.  Here are the tags that the functions below name.
  Tag names first met in the input are registered dynamically and get further indices
  (\<open>OTHER_TAG\<close>).
\<close>

datatype TagName =
    EVENT_TAG | SITE_TAG | DATE_TAG | ROUND_TAG | WHITE_TAG | BLACK_TAG | RESULT_TAG
  | VARIANT_TAG | SETUP_TAG | FEN_TAG | ECO_TAG | HASHCODE_TAG | MATERIAL_MATCH_TAG
  | PLY_COUNT_TAG | TOTAL_PLY_COUNT_TAG
  | OTHER_TAG nat

type_synonym tags = "TagName \<Rightarrow> string option"

subsection \<open>Pieces, colours and the board\<close>

text \<open>
  Modelled from the spec: the enumerations \<^verbatim>\<open>Piece\<close> and \<^verbatim>\<open>Colour\<close>, the macros
  \<^verbatim>\<open>MAKE_COLOURED_PIECE\<close>, \<^verbatim>\<open>W\<close>, \<^verbatim>\<open>EXTRACT_PIECE\<close>, \<^verbatim>\<open>EXTRACT_COLOUR\<close>, \<^verbatim>\<open>OPPOSITE_COLOUR\<close>,
  \<^verbatim>\<open>RankConvert\<close>, \<^verbatim>\<open>ColConvert\<close> and the structure \<^verbatim>\<open>Board\<close> are declared in headers
  that are not among the sources.  The spec describes a 12 by 12 board with a two-square
  border and a coloured piece stored as a small integer packing colour and piece.  The
  numbering of the pieces follows the piece-count table of \<^verbatim>\<open>material.c\<close>
  (\<^verbatim>\<open>{0, 0, 8, 2, 2, 2, 1, 1}\<close>: dummies for \<open>OFF\<close> and \<open>EMPTY\<close>, then P N B R Q K); the
  colour occupies the bit above the three piece bits.
\<close>

type_synonym Piece = nat
type_synonym Colour = nat

definition BLACK :: Colour where "BLACK = 0"
definition WHITE :: Colour where "WHITE = 1"

definition OFF :: Piece where "OFF = 0"
definition EMPTY :: Piece where "EMPTY = 1"
definition PAWN :: Piece where "PAWN = 2"
definition KNIGHT :: Piece where "KNIGHT = 3"
definition BISHOP :: Piece where "BISHOP = 4"
definition ROOK :: Piece where "ROOK = 5"
definition QUEEN :: Piece where "QUEEN = 6"
definition KING :: Piece where "KING = 7"

definition MAKE_COLOURED_PIECE :: "Colour \<Rightarrow> Piece \<Rightarrow> Piece" where
  "MAKE_COLOURED_PIECE colour piece = piece + 8 * colour"
definition W :: "Piece \<Rightarrow> Piece" where "W piece = MAKE_COLOURED_PIECE WHITE piece"
definition EXTRACT_PIECE :: "Piece \<Rightarrow> Piece" where "EXTRACT_PIECE coloured_piece = coloured_piece mod 8"
definition EXTRACT_COLOUR :: "Piece \<Rightarrow> Colour" where "EXTRACT_COLOUR coloured_piece = coloured_piece div 8"
definition OPPOSITE_COLOUR :: "Colour \<Rightarrow> Colour" where "OPPOSITE_COLOUR colour = (if colour = 0 then 1 else 0)"

definition RankConvert :: "char \<Rightarrow> nat" where
  "RankConvert rank = (if of_char CHR ''1'' \<le> (of_char rank :: nat) \<and> (of_char rank :: nat) \<le> of_char CHR ''8''
                       then of_char rank - of_char CHR ''1'' + 2 else 0)"
definition ColConvert :: "char \<Rightarrow> nat" where
  "ColConvert col = (if of_char CHR ''a'' \<le> (of_char col :: nat) \<and> (of_char col :: nat) \<le> of_char CHR ''h''
                     then of_char col - of_char CHR ''a'' + 2 else 0)"

text \<open>
  The fields of \<^verbatim>\<open>Board\<close> that the functions below read.  The castling fields hold the
  file letter of the rook (\<^verbatim>\<open>'\0'\<close> when the right is gone).
\<close>

record Board =
  board :: "nat \<Rightarrow> nat \<Rightarrow> Piece"
  to_move :: Colour
  move_number :: nat
  WKingCol :: char
  WKingRank :: char
  BKingCol :: char
  BKingRank :: char
  WKingCastle :: char
  WQueenCastle :: char
  BKingCastle :: char
  BQueenCastle :: char

subsection \<open>Comments, moves, games, configuration\<close>

text \<open>
  A \<^verbatim>\<open>CommentList\<close> is a \<^verbatim>\<open>NULL\<close>-terminated chain of comments, each a chain of
  whitespace-separated words (\<^verbatim>\<open>StringList\<close>).  In this part of the model a chain is the
  list of its elements and \<^verbatim>\<open>NULL\<close> is the empty list; the same holds for the move list
  chained through \<^verbatim>\<open>next\<close>.  (The splitting of variations, which rewires the chains,
  is modelled on an explicit store further below.)
\<close>

type_synonym Comment = "string list"
type_synonym CommentList = "Comment list"

text \<open>
  Modelled from the spec: \<^verbatim>\<open>HashCode\<close> is declared in a header that is not among the
  sources; the spec fixes it as a 64-bit unsigned integer, and \<^verbatim>\<open>output.c\<close> prints the
  \<^verbatim>\<open>zobrist\<close> field with \<^verbatim>\<open>PRIx64\<close>.
\<close>

type_synonym HashCode = "64 word"

record Move =
  move :: string
  captured_piece :: Piece
  promoted_piece :: Piece
  comment_list :: CommentList
  terminating_result :: "string option"
  zobrist :: HashCode

record Game =
  tags :: tags
  prefix_comment :: CommentList
  moves :: "Move list"
  cumulative_hash_value :: HashCode

text \<open>
  The fields of the configuration record \<^verbatim>\<open>StateInfo\<close> read by the functions below.  The
  fields \<^verbatim>\<open>add_hashcode_tag\<close> and \<^verbatim>\<open>split_variants\<close> have the names of functions; here they
  are \<open>add_hashcode_tag_flag\<close> and \<open>split_variants_flag\<close>.
\<close>

record StateInfo =
  add_fen_castling :: bool
  add_match_tag :: bool
  match_permutations :: bool
  max_line_length :: nat
  split_depth_limit :: nat
  line_number_marker :: "string option"
  output_plycount :: bool
  output_total_plycount :: bool
  add_hashcode_tag_flag :: bool
  keep_variations :: bool
  split_variants_flag :: bool

section \<open>Parser (grammar.c)\<close>

subsection \<open>Reconciling the Result tag\<close>

text \<open>
  \<^verbatim>\<open>check_result(char **Tags, const char *terminating_result)\<close>: a Result tag of
  \<^verbatim>\<open>"1/2"\<close> is replaced by the long form; then, if there is a terminating result and
  the tag is \<^verbatim>\<open>NULL\<close>, empty or \<^verbatim>\<open>"?"\<close>, the tag becomes a copy of the terminating result
  (the parameter \<open>result\<close>).
\<close>

definition check_result :: "tags \<Rightarrow> string option \<Rightarrow> tags" where
  "check_result Tags result =
     (let Tags1 = (if Tags RESULT_TAG = Some ''1/2''
                   then Tags(RESULT_TAG \<mapsto> ''1/2-1/2'') else Tags);
          result_tag = Tags1 RESULT_TAG
      in case result of
           None \<Rightarrow> Tags1
         | Some r \<Rightarrow>
             if result_tag = None \<or> result_tag = Some [] \<or> result_tag = Some ''?''
             then Tags1(RESULT_TAG \<mapsto> r)
             else Tags1)"

subsection \<open>The end of \<^verbatim>\<open>parse_game\<close>\<close>

text \<open>
  Modelled from the spec: the lexer (\<^verbatim>\<open>next_token\<close>) is not among the sources.  The spec
  describes it as yielding a sequence of tokens, so the parser state holds the lookahead
  \<^verbatim>\<open>current_symbol\<close> (with its value \<^verbatim>\<open>yylval\<close>), the tokens still to come and the
  nesting depth \<^verbatim>\<open>RAV_level\<close>; at the end of the input the lexer keeps answering
  \<^verbatim>\<open>EOF_TOKEN\<close>.
\<close>

datatype token =
    TAG TagName | STRING string | TAG_END | COMMENT Comment | MOVE Move | MOVE_NUMBER
  | NAG string | CHECK_SYMBOL | RAV_START | RAV_END | TERMINATING_RESULT string
  | EOF_TOKEN | NO_TOKEN | ERROR_TOKEN

record parser =
  current_symbol :: token
  pending :: "token list"
  RAV_level :: nat

definition next_token :: "parser \<Rightarrow> parser" where
  "next_token p =
     (case pending p of
        [] \<Rightarrow> p\<lparr>current_symbol := EOF_TOKEN\<rparr>
      | t # ts \<Rightarrow> p\<lparr>current_symbol := t, pending := ts\<rparr>)"

text \<open>\<^verbatim>\<open>parse_opt_comment_list\<close>: collect comments while the lookahead is a comment.\<close>

definition is_COMMENT :: "token \<Rightarrow> bool" where
  "is_COMMENT t = (case t of COMMENT _ \<Rightarrow> True | _ \<Rightarrow> False)"

function parse_opt_comment_list :: "parser \<Rightarrow> CommentList \<times> parser" where
  "parse_opt_comment_list p =
     (case current_symbol p of
        COMMENT c \<Rightarrow> (let (cs, p') = parse_opt_comment_list (next_token p) in (c # cs, p'))
      | _ \<Rightarrow> ([], p))"
  by pat_completeness auto
termination
  by (relation "measure (\<lambda>p. length (pending p) + (if is_COMMENT (current_symbol p) then 1 else 0))")
     (auto simp: next_token_def is_COMMENT_def split: list.splits token.splits)

text \<open>
  \<^verbatim>\<open>parse_result\<close>: a terminating result is taken only if it is the lookahead; at the top
  level the lookahead is then replaced by the dummy \<^verbatim>\<open>NO_TOKEN\<close>.
\<close>

definition parse_result :: "parser \<Rightarrow> string option \<times> parser" where
  "parse_result p =
     (case current_symbol p of
        TERMINATING_RESULT r \<Rightarrow>
          (Some r, if RAV_level p = 0 then p\<lparr>current_symbol := NO_TOKEN\<rparr> else next_token p)
      | _ \<Rightarrow> (None, p))"

text \<open>
  \<^verbatim>\<open>parse_game\<close>, from the point where the move list has been read (the call of
  \<^verbatim>\<open>parse_move_list\<close>): the arguments are the tag array of the game header, the move list
  just parsed and the parser state.  The function reads a hanging comment and the result,
  appends the comment to the last move and then either attaches the result to the last
  move, reconciles it with the Result tag and hands the move list back through
  \<^verbatim>\<open>*returned_move_list\<close>, or logs \<^verbatim>\<open>Missing result.\<close> and leaves \<^verbatim>\<open>*returned_move_list\<close>
  at \<^verbatim>\<open>NULL\<close>.  A game without moves only has its result reconciled with the tags.
\<close>

record parsed_game =
  returned_move_list :: "Move list"
  header_Tags :: tags
  logfile :: "string list"
  parser_after :: parser
  more_input :: bool

definition parse_game :: "tags \<Rightarrow> Move list \<Rightarrow> parser \<Rightarrow> parsed_game" where
  "parse_game Tags move_list p0 =
     (let (hanging_comment, p1) = parse_opt_comment_list p0;
          (result, p2) = parse_result p1
      in if move_list \<noteq> [] then
           (let last_move = last move_list;
                last_move1 = (if hanging_comment \<noteq> []
                              then last_move\<lparr>comment_list := comment_list last_move @ hanging_comment\<rparr>
                              else last_move)
            in case result of
                 Some r \<Rightarrow>
                   \<lparr>returned_move_list = butlast move_list @ [last_move1\<lparr>terminating_result := Some r\<rparr>],
                    header_Tags = check_result Tags (Some r),
                    logfile = [],
                    parser_after = p2,
                    more_input = (current_symbol p2 \<noteq> EOF_TOKEN)\<rparr>
               | None \<Rightarrow>
                   \<lparr>returned_move_list = [],
                    header_Tags = Tags,
                    logfile = [''Missing result.''],
                    parser_after = p2,
                    more_input = (current_symbol p2 \<noteq> EOF_TOKEN)\<rparr>)
         else
           \<lparr>returned_move_list = [],
            header_Tags = check_result Tags result,
            logfile = [],
            parser_after = p2,
            more_input = (current_symbol p2 \<noteq> EOF_TOKEN)\<rparr>)"

subsection \<open>Chess960 detection\<close>

text \<open>
  \<^verbatim>\<open>chess960_setup\<close>.  The loop over the files \<open>a\<close> to \<open>h\<close> stops as soon as \<^verbatim>\<open>probable\<close>
  is false; \<open>chess960_files\<close> is that loop, with the file index and \<^verbatim>\<open>probable\<close> as its
  state.
\<close>

function chess960_files :: "Board \<Rightarrow> nat \<Rightarrow> bool \<Rightarrow> bool" where
  "chess960_files b c probable =
     (if c \<le> ColConvert CHR ''h'' \<and> probable then
        (let white_r = RankConvert CHR ''2'';
             black_r = RankConvert CHR ''7'';
             probable1 = (board b white_r c = MAKE_COLOURED_PIECE WHITE PAWN
                          \<and> board b black_r c = MAKE_COLOURED_PIECE BLACK PAWN);
             probable2 = (if probable1
                          then board b (white_r - 1) c \<noteq> EMPTY
                               \<and> EXTRACT_PIECE (board b (white_r - 1) c)
                                 = EXTRACT_PIECE (board b (black_r + 1) c)
                          else probable1)
         in chess960_files b (c + 1) probable2)
      else probable)"
  by pat_completeness auto
termination
  by (relation "measure (\<lambda>(b, c, probable). Suc (ColConvert CHR ''h'') - c)") auto

declare chess960_files.simps [simp del]

definition chess960_setup :: "Board \<Rightarrow> bool" where
  "chess960_setup b =
     (if move_number b = 1 \<and> WKingRank b = CHR ''1'' \<and> BKingRank b = CHR ''8''
         \<and> WKingCol b = BKingCol b
         \<and> (WKingCastle b \<noteq> CHR 0x00 \<and> WQueenCastle b \<noteq> CHR 0x00
            \<and> BKingCastle b \<noteq> CHR 0x00 \<and> BQueenCastle b \<noteq> CHR 0x00)
      then
        (let probable = chess960_files b (ColConvert CHR ''a'') True
         in if probable then
              (let white_r = RankConvert CHR ''1''
               in board b white_r (ColConvert CHR ''a'') \<noteq> W ROOK
                \<or> board b white_r (ColConvert CHR ''b'') \<noteq> W KNIGHT
                \<or> board b white_r (ColConvert CHR ''c'') \<noteq> W BISHOP
                \<or> board b white_r (ColConvert CHR ''d'') \<noteq> W QUEEN
                \<or> board b white_r (ColConvert CHR ''e'') \<noteq> W KING
                \<or> board b white_r (ColConvert CHR ''f'') \<noteq> W BISHOP
                \<or> board b white_r (ColConvert CHR ''g'') \<noteq> W KNIGHT
                \<or> board b white_r (ColConvert CHR ''h'') \<noteq> W ROOK)
            else probable)
      else False)"

subsection \<open>Consistency of the FEN tags\<close>

text \<open>
  \<^verbatim>\<open>consistent_FEN_tags\<close>.  Modelled from the spec: \<^verbatim>\<open>new_fen_board\<close> (the FEN parser,
  \<^verbatim>\<open>NULL\<close> for a FEN it rejects) and \<^verbatim>\<open>add_fen_castling\<close> are not among the sources; they
  are parameters (\<open>add_fen_castling_fn\<close> for the function, since the configuration has a
  flag of the same name).  The result is the answer, the game with its tags as the
  function leaves them and the messages logged (format strings as in the source).
\<close>

record FEN_check =
  consistent :: bool
  game_after :: Game
  messages :: "string list"

definition consistent_FEN_tags ::
  "(string \<Rightarrow> Board option) \<Rightarrow> (Game \<Rightarrow> Board \<Rightarrow> Game) \<Rightarrow> StateInfo \<Rightarrow> Game \<Rightarrow> FEN_check" where
  "consistent_FEN_tags new_fen_board add_fen_castling_fn globals current_game =
     (let setup_without_fen =
            (tags current_game SETUP_TAG = Some ''1'' \<and> tags current_game FEN_TAG = None);
          consistent1 = \<not> setup_without_fen;
          log1 = (if setup_without_fen then [''Missing %s Tag to accompany %s Tag.''] else [])
      in case tags current_game FEN_TAG of
           None \<Rightarrow> \<lparr>consistent = consistent1, game_after = current_game, messages = log1\<rparr>
         | Some fen \<Rightarrow>
             (case new_fen_board fen of
                None \<Rightarrow> \<lparr>consistent = False, game_after = current_game, messages = log1\<rparr>
              | Some b \<Rightarrow>
                  (let game1 = (if tags current_game SETUP_TAG = None
                                then current_game\<lparr>tags := (tags current_game)(SETUP_TAG \<mapsto> ''1'')\<rparr>
                                else current_game);
                       chess960 = chess960_setup b
                   in if tags game1 VARIANT_TAG = None then
                        (if chess960 then
                           \<lparr>consistent = consistent1,
                            game_after = game1\<lparr>tags := (tags game1)(VARIANT_TAG \<mapsto> ''chess 960'')\<rparr>,
                            messages = log1 @ [''Missing %s Tag for non-standard setup; adding %s.'']\<rparr>
                         else if add_fen_castling globals then
                           (if WKingCastle b = CHR 0x00 \<and> WQueenCastle b = CHR 0x00
                               \<and> BKingCastle b = CHR 0x00 \<and> BQueenCastle b = CHR 0x00
                            then \<lparr>consistent = consistent1,
                                  game_after = add_fen_castling_fn game1 b, messages = log1\<rparr>
                            else \<lparr>consistent = consistent1, game_after = game1, messages = log1\<rparr>)
                         else \<lparr>consistent = consistent1, game_after = game1, messages = log1\<rparr>)
                      else \<lparr>consistent = consistent1, game_after = game1, messages = log1\<rparr>)))"

text \<open>
  The conditions for a Chess960 start position in the words of the spec and of the comment
  above \<^verbatim>\<open>chess960_setup\<close>: move number 1, both kings on their own back rank and on the
  same file, all four castling rights, both home ranks full of pawns, a full back rank
  with identical piece types opposite each other on every file, and at least one
  back-rank piece out of its standard position.
\<close>

definition standard_back_rank :: "nat \<Rightarrow> Piece" where
  "standard_back_rank c = W ([ROOK, KNIGHT, BISHOP, QUEEN, KING, BISHOP, KNIGHT, ROOK] ! (c - ColConvert CHR ''a''))"

definition file_indices :: "nat set" where
  "file_indices = {ColConvert CHR ''a'' .. ColConvert CHR ''h''}"

definition chess960_conditions :: "Board \<Rightarrow> bool" where
  "chess960_conditions b \<longleftrightarrow>
     move_number b = 1
     \<and> WKingRank b = CHR ''1'' \<and> BKingRank b = CHR ''8'' \<and> WKingCol b = BKingCol b
     \<and> WKingCastle b \<noteq> CHR 0x00 \<and> WQueenCastle b \<noteq> CHR 0x00
     \<and> BKingCastle b \<noteq> CHR 0x00 \<and> BQueenCastle b \<noteq> CHR 0x00
     \<and> (\<forall>c \<in> file_indices.
            board b (RankConvert CHR ''2'') c = MAKE_COLOURED_PIECE WHITE PAWN
            \<and> board b (RankConvert CHR ''7'') c = MAKE_COLOURED_PIECE BLACK PAWN)
     \<and> (\<forall>c \<in> file_indices.
            board b (RankConvert CHR ''1'') c \<noteq> EMPTY
            \<and> EXTRACT_PIECE (board b (RankConvert CHR ''1'') c)
              = EXTRACT_PIECE (board b (RankConvert CHR ''8'') c))
     \<and> (\<exists>c \<in> file_indices. board b (RankConvert CHR ''1'') c \<noteq> standard_back_rank c)"

text \<open>What one round of the loop of \<^verbatim>\<open>chess960_setup\<close> checks on a file.\<close>

definition file_ok :: "Board \<Rightarrow> nat \<Rightarrow> bool" where
  "file_ok b c \<longleftrightarrow>
     board b (RankConvert CHR ''2'') c = MAKE_COLOURED_PIECE WHITE PAWN
     \<and> board b (RankConvert CHR ''7'') c = MAKE_COLOURED_PIECE BLACK PAWN
     \<and> board b (RankConvert CHR ''2'' - 1) c \<noteq> EMPTY
     \<and> EXTRACT_PIECE (board b (RankConvert CHR ''2'' - 1) c)
       = EXTRACT_PIECE (board b (RankConvert CHR ''7'' + 1) c)"

subsection \<open>The selection condition of \<^verbatim>\<open>deal_with_game\<close>\<close>

text \<open>
  \<^verbatim>\<open>deal_with_game\<close> decides whether a game is wanted by one condition, a chain of
  \<^verbatim>\<open>&&\<close> over twelve calls.  Most of the functions called are not among the sources and
  several of them change the game (the move interpretation fills in hashes and position
  counts), so each call is a parameter: a function from the state to its answer and the
  new state.  The calls are named after the predicates of the spec:
  \<^verbatim>\<open>consistent_FEN_tags\<close> (\<open>FEN_tag_consistency\<close>), \<^verbatim>\<open>check_tag_details_not_ECO\<close>
  (\<open>Tag_roster_match\<close>), \<^verbatim>\<open>check_setup_tag\<close> (\<open>Setup_tag_policy\<close>), \<^verbatim>\<open>check_duplicate_setup\<close>
  (\<open>Duplicate_setup_suppression\<close>), \<^verbatim>\<open>apply_move_list\<close> (\<open>Move_list_interpretation\<close>),
  \<^verbatim>\<open>check_move_bounds\<close> (\<open>Move_count_bounds\<close>), \<^verbatim>\<open>check_textual_variations\<close>
  (\<open>Textual_variation_match\<close>), \<^verbatim>\<open>check_for_material_match\<close> (\<open>Material_match\<close>),
  \<^verbatim>\<open>check_for_only_checkmate\<close> (\<open>Checkmate_only\<close>), \<^verbatim>\<open>check_for_only_repetition\<close>
  (\<open>Repetition\<close>), \<^verbatim>\<open>check_ECO_tag\<close> (\<open>ECO_tag_match\<close>) and \<^verbatim>\<open>check_for_comments\<close>
  (\<open>Has_comment_filter\<close>).
\<close>

datatype predicate_name =
    FEN_tag_consistency | Tag_roster_match | Setup_tag_policy | Duplicate_setup_suppression
  | Move_list_interpretation | Move_count_bounds | Textual_variation_match | Material_match
  | Checkmate_only | Stalemate_only | Insufficient_material_only | Repetition | N_move_rule
  | ECO_tag_match | Has_comment_filter

type_synonym 's check = "'s \<Rightarrow> bool \<times> 's"

text \<open>C's \<^verbatim>\<open>&&\<close>: the right operand is evaluated only if the left one is true.\<close>

definition and_also :: "'s check \<Rightarrow> 's check \<Rightarrow> 's check" where
  "and_also p q s = (case p s of (True, s') \<Rightarrow> q s' | (False, s') \<Rightarrow> (False, s'))"

definition deal_with_game_wanted :: "(predicate_name \<Rightarrow> 's check) \<Rightarrow> 's check" where
  "deal_with_game_wanted call =
     and_also (call FEN_tag_consistency)
    (and_also (call Tag_roster_match)
    (and_also (call Setup_tag_policy)
    (and_also (call Duplicate_setup_suppression)
    (and_also (call Move_list_interpretation)
    (and_also (call Move_count_bounds)
    (and_also (call Textual_variation_match)
    (and_also (call Material_match)
    (and_also (call Checkmate_only)
    (and_also (call Repetition)
    (and_also (call ECO_tag_match)
              (call Has_comment_filter)))))))))))"

text \<open>The calls of the condition, in the order in which the source writes them.\<close>

definition conjunct_order :: "predicate_name list" where
  "conjunct_order =
     [FEN_tag_consistency, Tag_roster_match, Setup_tag_policy, Duplicate_setup_suppression,
      Move_list_interpretation, Move_count_bounds, Textual_variation_match, Material_match,
      Checkmate_only, Repetition, ECO_tag_match, Has_comment_filter]"

text \<open>The order of the predicates as the spec lists them (section 4.5).\<close>

definition spec_predicate_order :: "predicate_name list" where
  "spec_predicate_order =
     [FEN_tag_consistency, Tag_roster_match, Setup_tag_policy, Duplicate_setup_suppression,
      Move_list_interpretation, Move_count_bounds, Textual_variation_match, Material_match,
      Checkmate_only, Stalemate_only, Insufficient_material_only, Repetition, N_move_rule,
      ECO_tag_match, Has_comment_filter]"

text \<open>
  An instance that records which calls are made: the state is the list of the calls made
  so far, and \<open>accepts\<close> gives the answer of each predicate.
\<close>

definition traced :: "(predicate_name \<Rightarrow> bool) \<Rightarrow> predicate_name \<Rightarrow> predicate_name list check" where
  "traced accepts n tr = (accepts n, tr @ [n])"

text \<open>The calls up to and including the first one that rejects.\<close>

fun evaluated :: "(predicate_name \<Rightarrow> bool) \<Rightarrow> predicate_name list \<Rightarrow> predicate_name list" where
  "evaluated accepts [] = []"
| "evaluated accepts (n # ns) = (if accepts n then n # evaluated accepts ns else [n])"

text \<open>Running a list of calls from left to right, stopping at the first that rejects.\<close>

fun run_in_order :: "(predicate_name \<Rightarrow> 's check) \<Rightarrow> predicate_name list \<Rightarrow> 's check" where
  "run_in_order call [] s = (True, s)"
| "run_in_order call (n # ns) s =
     (case call n s of (True, s') \<Rightarrow> run_in_order call ns s' | (False, s') \<Rightarrow> (False, s'))"

section \<open>Material matching (material.c)\<close>

text \<open>
  A \<^verbatim>\<open>MaterialCriteria\<close> record; the chain through \<^verbatim>\<open>next\<close> is the list
  \<^verbatim>\<open>endings_to_match\<close>.  The counts are C \<^verbatim>\<open>int\<close>s, the depths \<^verbatim>\<open>unsigned\<close>; the piece
  counts of a position are the array \<^verbatim>\<open>int num_pieces[2][NUM_PIECE_VALUES]\<close>.
\<close>

datatype Occurs =
    EXACTLY | NUM_OR_MORE | NUM_OR_LESS | SAME_AS_OPPONENT | NOT_SAME_AS_OPPONENT
  | LESS_THAN_OPPONENT | MORE_THAN_OPPONENT | LESS_EQ_THAN_OPPONENT | MORE_EQ_THAN_OPPONENT

type_synonym piece_counts = "Colour \<Rightarrow> Piece \<Rightarrow> int"

record MaterialCriteria =
  both_colours :: bool
  num_pieces :: piece_counts
  occurs :: "Colour \<Rightarrow> Piece \<Rightarrow> Occurs"
  num_minor_pieces :: "Colour \<Rightarrow> int"
  minor_occurs :: "Colour \<Rightarrow> Occurs"
  move_depth :: nat
  match_depth :: "Colour \<Rightarrow> nat"

text \<open>\<^verbatim>\<open>piece_match\<close>: one count against one requirement.\<close>

fun piece_match :: "int \<Rightarrow> int \<Rightarrow> int \<Rightarrow> Occurs \<Rightarrow> bool" where
  "piece_match num_available num_to_find num_opponents EXACTLY = (num_available = num_to_find)"
| "piece_match num_available num_to_find num_opponents NUM_OR_MORE = (num_available \<ge> num_to_find)"
| "piece_match num_available num_to_find num_opponents NUM_OR_LESS = (num_available \<le> num_to_find)"
| "piece_match num_available num_to_find num_opponents SAME_AS_OPPONENT = (num_available = num_opponents)"
| "piece_match num_available num_to_find num_opponents NOT_SAME_AS_OPPONENT = (num_available \<noteq> num_opponents)"
| "piece_match num_available num_to_find num_opponents LESS_THAN_OPPONENT =
     (num_available + num_to_find \<le> num_opponents)"
| "piece_match num_available num_to_find num_opponents MORE_THAN_OPPONENT =
     (num_available - num_to_find \<ge> num_opponents)"
| "piece_match num_available num_to_find num_opponents LESS_EQ_THAN_OPPONENT =
     (num_available + num_to_find = num_opponents)"
| "piece_match num_available num_to_find num_opponents MORE_EQ_THAN_OPPONENT =
     (num_available - num_to_find = num_opponents)"

text \<open>
  \<^verbatim>\<open>piece_set_match\<close>: the loop runs over the pieces from \<open>PAWN\<close> up to, not including,
  \<open>KING\<close> while \<^verbatim>\<open>match\<close> holds; a failure on a knight or bishop is remembered in
  \<^verbatim>\<open>minor_failure\<close> and matching carries on.  \<open>piece_set_loop\<close> is the loop, with
  \<^verbatim>\<open>(match, minor_failure)\<close> as its state.
\<close>

fun piece_set_loop ::
  "MaterialCriteria \<Rightarrow> piece_counts \<Rightarrow> Colour \<Rightarrow> Colour \<Rightarrow> Piece list \<Rightarrow> bool \<times> bool \<Rightarrow> bool \<times> bool" where
  "piece_set_loop details_to_find np game_colour piece_set_colour [] (match, minor_failure) =
     (match, minor_failure)"
| "piece_set_loop details_to_find np game_colour piece_set_colour (piece # rest) (match, minor_failure) =
     (if \<not> match then (match, minor_failure)
      else
        (let num_available = np game_colour piece;
             num_opponents = np (OPPOSITE_COLOUR game_colour) piece;
             num_to_find = num_pieces details_to_find piece_set_colour piece;
             occ = occurs details_to_find piece_set_colour piece;
             match1 = piece_match num_available num_to_find num_opponents occ
         in piece_set_loop details_to_find np game_colour piece_set_colour rest
              (if \<not> match1
               then (if piece = KNIGHT \<or> piece = BISHOP then (True, True) else (match1, False))
               else (match1, minor_failure))))"

definition piece_set_match ::
  "MaterialCriteria \<Rightarrow> piece_counts \<Rightarrow> Colour \<Rightarrow> Colour \<Rightarrow> bool" where
  "piece_set_match details_to_find np game_colour piece_set_colour =
     (let (match, minor_failure) =
            piece_set_loop details_to_find np game_colour piece_set_colour
              [PAWN, KNIGHT, BISHOP, ROOK, QUEEN] (True, False)
      in if match then
           (let num_to_find = num_minor_pieces details_to_find piece_set_colour;
                occ = minor_occurs details_to_find piece_set_colour
            in if num_to_find > 0 \<or> occ \<noteq> EXACTLY then
                 (let num_available = np game_colour BISHOP + np game_colour KNIGHT;
                      num_opponents = np (OPPOSITE_COLOUR game_colour) BISHOP
                                    + np (OPPOSITE_COLOUR game_colour) KNIGHT
                  in piece_match num_available num_to_find num_opponents occ)
               else if minor_failure then False
               else match)
         else match)"

text \<open>
  \<^verbatim>\<open>material_match\<close>: the two piece sets are matched against the two sides; on success
  the result is true only if \<^verbatim>\<open>match_depth\<close> has already reached \<^verbatim>\<open>move_depth\<close>, otherwise
  the counter of the colour is incremented; on failure the counter is reset.
\<close>

definition material_match ::
  "MaterialCriteria \<Rightarrow> piece_counts \<Rightarrow> Colour \<Rightarrow> bool \<times> MaterialCriteria" where
  "material_match details_to_find np game_colour =
     (let match1 = piece_set_match details_to_find np game_colour WHITE;
          match2 = (if match1
                    then piece_set_match details_to_find np (OPPOSITE_COLOUR game_colour)
                           (OPPOSITE_COLOUR WHITE)
                    else match1)
      in if match2 then
           (if match_depth details_to_find game_colour < move_depth details_to_find
            then (False, details_to_find\<lparr>match_depth :=
                    (match_depth details_to_find)
                      (game_colour := match_depth details_to_find game_colour + 1)\<rparr>)
            else (True, details_to_find))
         else (False, details_to_find\<lparr>match_depth :=
                 (match_depth details_to_find)(game_colour := 0)\<rparr>))"

text \<open>
  The piece-count constraints of a criterion at a position, as \<^verbatim>\<open>material_match\<close> tests
  them before it looks at the depth counters.
\<close>

definition constraints_hold :: "MaterialCriteria \<Rightarrow> piece_counts \<Rightarrow> Colour \<Rightarrow> bool" where
  "constraints_hold d np game_colour \<longleftrightarrow>
     piece_set_match d np game_colour WHITE
     \<and> piece_set_match d np (OPPOSITE_COLOUR game_colour) (OPPOSITE_COLOUR WHITE)"

text \<open>
  The criterion after \<^verbatim>\<open>material_match\<close> has been called for one colour on a sequence of
  positions, one call per position.
\<close>

definition material_match_run :: "MaterialCriteria \<Rightarrow> Colour \<Rightarrow> piece_counts list \<Rightarrow> MaterialCriteria" where
  "material_match_run d game_colour positions =
     foldl (\<lambda>d' np. snd (material_match d' np game_colour)) d positions"

text \<open>\<^verbatim>\<open>reset_match_depths\<close>, called at the start of every game.\<close>

definition reset_match_depths :: "MaterialCriteria list \<Rightarrow> MaterialCriteria list" where
  "reset_match_depths endings =
     map (\<lambda>e. e\<lparr>match_depth := (match_depth e)(WHITE := 0, BLACK := 0)\<rparr>) endings"

text \<open>\<^verbatim>\<open>extract_pieces_from_board\<close>: count the pieces on the 64 squares.\<close>

definition board_squares :: "(nat \<times> nat) list" where
  "board_squares = concat (map (\<lambda>rank. map (\<lambda>col. (RankConvert rank, ColConvert col)) ''abcdefgh'') ''12345678'')"

definition extract_pieces_from_board :: "Board \<Rightarrow> piece_counts" where
  "extract_pieces_from_board b =
     foldl (\<lambda>np (r, c).
              (let coloured_piece = board b r c
               in if coloured_piece \<noteq> EMPTY
                  then (let p = EXTRACT_PIECE coloured_piece; col = EXTRACT_COLOUR coloured_piece
                        in np(col := (np col)(p := np col p + 1)))
                  else np))
           (\<lambda>c p. 0) board_squares"

text \<open>The counts of the initial position, the initialiser of \<^verbatim>\<open>num_pieces\<close>.\<close>

definition initial_num_pieces :: piece_counts where
  "initial_num_pieces = (\<lambda>c p. [0, 0, 8, 2, 2, 2, 1, 1] ! p)"

text \<open>
  \<^verbatim>\<open>look_for_material_match\<close>.  Modelled from the spec: \<^verbatim>\<open>new_game_board\<close> and
  \<^verbatim>\<open>apply_move\<close> are not among the sources; they are parameters.  \<open>apply_move\<close> answers
  \<open>None\<close> for a move it rejects and otherwise the move with its details filled in and the
  new board.  The optional match comment does not influence the result and is left out.

  \<open>endings_loop\<close> is the inner \<^verbatim>\<open>for\<close> loop over the criteria, tried before each move;
  \<open>material_loop\<close> is the outer \<^verbatim>\<open>while\<close> loop over the moves.  Its result is
  \<^verbatim>\<open>(game_ok, matches, white_matches, black_matches)\<close> and the criteria with their updated
  counters.
\<close>

fun endings_loop ::
  "piece_counts \<Rightarrow> MaterialCriteria list \<Rightarrow> bool \<times> bool \<times> bool
     \<Rightarrow> (bool \<times> bool \<times> bool) \<times> MaterialCriteria list" where
  "endings_loop np [] st = (st, [])"
| "endings_loop np (details_to_find # rest) (matches, white_matches, black_matches) =
     (if matches then ((matches, white_matches, black_matches), details_to_find # rest)
      else
        (let (white_matches1, d1) = material_match details_to_find np WHITE;
             (black_matches1, d2) = (if both_colours d1 then material_match d1 np BLACK
                                     else (False, d1));
             (st, rest1) = endings_loop np rest
                             (white_matches1 \<or> black_matches1, white_matches1, black_matches1)
         in (st, d2 # rest1)))"

fun material_loop ::
  "(Move \<Rightarrow> Board \<Rightarrow> (Move \<times> Board) option) \<Rightarrow> MaterialCriteria list \<Rightarrow> piece_counts
     \<Rightarrow> Colour \<Rightarrow> Board \<Rightarrow> Move list \<Rightarrow> bool \<times> bool
     \<Rightarrow> (bool \<times> bool \<times> bool \<times> bool) \<times> MaterialCriteria list" where
  "material_loop apply_move endings np colour b next_move (white_matches, black_matches) =
     (let ((matches, white_matches1, black_matches1), endings1) =
            endings_loop np endings (False, white_matches, black_matches)
      in if matches then ((True, True, white_matches1, black_matches1), endings1)
         else
           (case next_move of
              [] \<Rightarrow> ((True, False, white_matches1, black_matches1), endings1)
            | m # rest \<Rightarrow>
                if move m \<noteq> [] then
                  (case apply_move m b of
                     Some (m1, b1) \<Rightarrow>
                       (let np1 = (if captured_piece m1 \<noteq> EMPTY
                                   then np(OPPOSITE_COLOUR colour :=
                                          (np (OPPOSITE_COLOUR colour))
                                            (captured_piece m1 :=
                                               np (OPPOSITE_COLOUR colour) (captured_piece m1) - 1))
                                   else np);
                            np2 = (if promoted_piece m1 \<noteq> EMPTY
                                   then (let np' = np1(colour := (np1 colour)
                                                     (promoted_piece m1 := np1 colour (promoted_piece m1) + 1))
                                         in np'(colour := (np' colour)(PAWN := np' colour PAWN - 1)))
                                   else np1)
                        in material_loop apply_move endings1 np2 (OPPOSITE_COLOUR colour) b1 rest
                             (white_matches1, black_matches1))
                   | None \<Rightarrow> ((False, False, white_matches1, black_matches1), endings1))
                else ((False, False, white_matches1, black_matches1), endings1)))"

definition look_for_material_match ::
  "(string option \<Rightarrow> Board) \<Rightarrow> (Move \<Rightarrow> Board \<Rightarrow> (Move \<times> Board) option) \<Rightarrow> StateInfo
     \<Rightarrow> MaterialCriteria list \<Rightarrow> Game \<Rightarrow> bool \<times> Game \<times> MaterialCriteria list" where
  "look_for_material_match new_game_board apply_move globals endings_to_match game_details =
     (let b = new_game_board (tags game_details FEN_TAG);
          (np, colour) = (if tags game_details FEN_TAG \<noteq> None
                          then (extract_pieces_from_board b, to_move b)
                          else (initial_num_pieces, WHITE));
          endings0 = reset_match_depths endings_to_match;
          ((game_ok, matches, white_matches, black_matches), endings1) =
             material_loop apply_move endings0 np colour b (moves game_details) (False, False)
      in if game_ok \<and> matches then
           (True,
            (if add_match_tag globals
             then game_details\<lparr>tags := (tags game_details)
                    (MATERIAL_MATCH_TAG \<mapsto> (if white_matches then ''White'' else ''Black''))\<rparr>
             else game_details),
            endings1)
         else (False, game_details, endings1))"

definition check_for_material_match ::
  "(string option \<Rightarrow> Board) \<Rightarrow> (Move \<Rightarrow> Board \<Rightarrow> (Move \<times> Board) option) \<Rightarrow> StateInfo
     \<Rightarrow> MaterialCriteria list \<Rightarrow> Game \<Rightarrow> bool \<times> Game \<times> MaterialCriteria list" where
  "check_for_material_match new_game_board apply_move globals endings_to_match game =
     (if endings_to_match \<noteq> []
      then look_for_material_match new_game_board apply_move globals endings_to_match game
      else (True, game, endings_to_match))"

section \<open>Writer (output.c)\<close>

subsection \<open>The line buffer\<close>

text \<open>
  The writer keeps the line under construction in the buffer \<^verbatim>\<open>output_line\<close>, of which
  the first \<^verbatim>\<open>line_length\<close> characters are in use.  The model holds the used part of the
  buffer as a string, so \<open>line_length\<close> is its length, and the text written to the output
  file so far.  (C strings hold no NUL character.)
\<close>

definition newline :: char where "newline = CHR 0x0A"

record writer =
  output_line :: string
  outputfile :: string

definition line_length :: "writer \<Rightarrow> nat" where
  "line_length w = length (output_line w)"

text \<open>
  \<^verbatim>\<open>terminate_line\<close>: trailing spaces are dropped by decrementing \<^verbatim>\<open>line_length\<close>; a line
  that is not empty is written with a newline and the buffer is empty afterwards.  With
  \<^verbatim>\<open>max_line_length == 0\<close> every function writes straight to the file.
\<close>

definition strip_trailing_spaces :: "string \<Rightarrow> string" where
  "strip_trailing_spaces l = rev (dropWhile (\<lambda>c. c = CHR '' '') (rev l))"

definition terminate_line :: "StateInfo \<Rightarrow> writer \<Rightarrow> writer" where
  "terminate_line globals w =
     (if max_line_length globals = 0 then w\<lparr>outputfile := outputfile w @ [newline]\<rparr>
      else
        (let l = strip_trailing_spaces (output_line w)
         in if length l > 0
            then w\<lparr>outputfile := outputfile w @ l @ [newline], output_line := []\<rparr>
            else w\<lparr>output_line := l\<rparr>))"

text \<open>\<^verbatim>\<open>check_line_length\<close>: make room for \<open>len\<close> more characters.\<close>

definition check_line_length :: "StateInfo \<Rightarrow> writer \<Rightarrow> nat \<Rightarrow> writer" where
  "check_line_length globals w len =
     (if line_length w + len > max_line_length globals \<and> max_line_length globals \<noteq> 0
      then terminate_line globals w else w)"

definition print_single_char :: "StateInfo \<Rightarrow> writer \<Rightarrow> char \<Rightarrow> writer" where
  "print_single_char globals w ch =
     (if max_line_length globals = 0 then w\<lparr>outputfile := outputfile w @ [ch]\<rparr>
      else
        (let w1 = check_line_length globals w 1
         in w1\<lparr>output_line := output_line w1 @ [ch]\<rparr>))"

definition print_separator :: "StateInfo \<Rightarrow> writer \<Rightarrow> writer" where
  "print_separator globals w =
     (if max_line_length globals = 0 then w\<lparr>outputfile := outputfile w @ [CHR '' '']\<rparr>
      else
        (let w1 = check_line_length globals w 2
         in if line_length w1 \<noteq> 0 \<and> output_line w1 ! (line_length w1 - 1) \<noteq> CHR '' ''
            then w1\<lparr>output_line := output_line w1 @ [CHR '' '']\<rparr>
            else w1))"

text \<open>
  \<^verbatim>\<open>print_str\<close>: a string longer than \<^verbatim>\<open>max_line_length\<close> is reported on the log file and
  written to the output file directly, followed by a newline.
\<close>

definition print_str :: "StateInfo \<Rightarrow> writer \<Rightarrow> string \<Rightarrow> writer" where
  "print_str globals w str =
     (if max_line_length globals = 0 then w\<lparr>outputfile := outputfile w @ str\<rparr>
      else
        (let len = length str;
             w1 = check_line_length globals w len
         in if len > max_line_length globals
            then w1\<lparr>outputfile := outputfile w1 @ str @ [newline]\<rparr>
            else w1\<lparr>output_line := output_line w1 @ str\<rparr>))"

text \<open>A game is written by a sequence of calls of these four functions.\<close>

datatype writer_call = Print_str string | Print_single_char char | Print_separator | Terminate_line

fun writer_step :: "StateInfo \<Rightarrow> writer \<Rightarrow> writer_call \<Rightarrow> writer" where
  "writer_step globals w (Print_str str) = print_str globals w str"
| "writer_step globals w (Print_single_char ch) = print_single_char globals w ch"
| "writer_step globals w Print_separator = print_separator globals w"
| "writer_step globals w Terminate_line = terminate_line globals w"

definition writer_run :: "StateInfo \<Rightarrow> writer \<Rightarrow> writer_call list \<Rightarrow> writer" where
  "writer_run globals w calls = foldl (writer_step globals) w calls"

text \<open>The text a call contributes.\<close>

fun call_text :: "writer_call \<Rightarrow> string" where
  "call_text (Print_str str) = str"
| "call_text (Print_single_char ch) = [ch]"
| "call_text Print_separator = [CHR '' '']"
| "call_text Terminate_line = [newline]"

text \<open>The lines of a text: the pieces that end in a newline.\<close>

fun lines_from :: "string \<Rightarrow> string \<Rightarrow> string list" where
  "lines_from cur [] = []"
| "lines_from cur (c # cs) =
     (if c = newline then rev cur # lines_from [] cs else lines_from (c # cur) cs)"

definition emitted_lines :: "string \<Rightarrow> string list" where
  "emitted_lines text = lines_from [] text"

text \<open>
  A call fits when its string has no newline and is no longer than \<^verbatim>\<open>max_line_length\<close>
  (the source asks that strings hold no newline; a single character must not be one).
\<close>

fun fits :: "StateInfo \<Rightarrow> writer_call \<Rightarrow> bool" where
  "fits globals (Print_str str) = (newline \<notin> set str \<and> length str \<le> max_line_length globals)"
| "fits globals (Print_single_char ch) = (ch \<noteq> newline)"
| "fits globals Print_separator = True"
| "fits globals Terminate_line = True"

definition start_of_file :: writer where
  "start_of_file = \<lparr>output_line = [], outputfile = []\<rparr>"

text \<open>
  The invariant of the writer: the buffer is within the limit and holds no newline, and the
  file consists of good lines, each within the limit, not empty and not ending in a space.
\<close>

definition good_line :: "nat \<Rightarrow> string \<Rightarrow> bool" where
  "good_line n l \<longleftrightarrow> newline \<notin> set l \<and> length l \<le> n \<and> l \<noteq> [] \<and> last l \<noteq> CHR '' ''"

definition wrapped :: "StateInfo \<Rightarrow> writer \<Rightarrow> bool" where
  "wrapped globals w \<longleftrightarrow>
     length (output_line w) \<le> max_line_length globals
     \<and> newline \<notin> set (output_line w)
     \<and> (\<exists>ls. outputfile w = concat (map (\<lambda>l. l @ [newline]) ls)
             \<and> (\<forall>l \<in> set ls. good_line (max_line_length globals) l))"

subsection \<open>Printing hash values\<close>

text \<open>
  C's \<^verbatim>\<open>printf\<close> conversions \<^verbatim>\<open>%08x\<close> and \<^verbatim>\<open>%016llx\<close> (\<^verbatim>\<open>PRIx64\<close>): the lower-case
  hexadecimal digits of the value, most significant first, padded with zeros on the left
  to the given width.
\<close>

definition hex_digit :: "nat \<Rightarrow> char" where
  "hex_digit d = ''0123456789abcdef'' ! d"

fun hex_digits :: "nat \<Rightarrow> string" where
  "hex_digits n = (if n < 16 then [hex_digit n] else hex_digits (n div 16) @ [hex_digit (n mod 16)])"

declare hex_digits.simps [simp del]

definition printf_0x :: "nat \<Rightarrow> nat \<Rightarrow> string" where
  "printf_0x width n = replicate (width - length (hex_digits n)) CHR ''0'' @ hex_digits n"

text \<open>Reading an unsigned hexadecimal numeral, most significant digit first.\<close>

definition digit_value :: "char \<Rightarrow> nat option" where
  "digit_value c = map_of (zip ''0123456789abcdef'' [0, 1, 2, 3, 4, 5, 6, 7, 8, 9, 10, 11, 12, 13, 14, 15]) c"

fun hex_value :: "nat \<Rightarrow> string \<Rightarrow> nat option" where
  "hex_value acc [] = Some acc"
| "hex_value acc (c # cs) =
     (case digit_value c of None \<Rightarrow> None | Some d \<Rightarrow> hex_value (16 * acc + d) cs)"

text \<open>
  \<^verbatim>\<open>add_hashcode_tag\<close>: \<^verbatim>\<open>sprintf(formatted_code, "%08x", (unsigned)hashcode)\<close>; the cast
  keeps the low 32 bits of the cumulative hash.
\<close>

definition add_hashcode_tag :: "Game \<Rightarrow> Game" where
  "add_hashcode_tag game =
     (let hashcode = cumulative_hash_value game;
          formatted_code = printf_0x 8 (unat (ucast hashcode :: 32 word))
      in game\<lparr>tags := (tags game)(HASHCODE_TAG \<mapsto> formatted_code)\<rparr>)"

text \<open>
  The hash of a move as \<^verbatim>\<open>print_items_following_move\<close> formats it for a hashcode
  comment, a JSON field or a TSV column: \<^verbatim>\<open>"%016" PRIx64\<close> of \<^verbatim>\<open>move_details->zobrist\<close>.
\<close>

definition move_hashcode_text :: "Move \<Rightarrow> string" where
  "move_hashcode_text move_details = printf_0x 16 (unat (zobrist move_details))"

section \<open>Game number lists (argsfile.c)\<close>

text \<open>
  The C library functions used by \<^verbatim>\<open>extract_game_number_list\<close>, in the C locale.
  \<open>strtok_all\<close> is the sequence of tokens that repeated calls of \<^verbatim>\<open>strtok\<close> with one
  delimiter give: the maximal runs of other characters, empty fields skipped.
\<close>

definition isspace :: "char \<Rightarrow> bool" where
  "isspace c \<longleftrightarrow> c \<in> set [CHR '' '', CHR 0x09, CHR 0x0A, CHR 0x0B, CHR 0x0C, CHR 0x0D]"

definition isdigit :: "char \<Rightarrow> bool" where
  "isdigit c \<longleftrightarrow> c \<in> set ''0123456789''"

definition digit_of :: "char \<Rightarrow> nat" where
  "digit_of c = of_char c - of_char CHR ''0''"

fun strtok_fields :: "char \<Rightarrow> string \<Rightarrow> string \<Rightarrow> string list" where
  "strtok_fields delim cur [] = (if cur = [] then [] else [rev cur])"
| "strtok_fields delim cur (c # cs) =
     (if c = delim
      then (if cur = [] then strtok_fields delim [] cs else rev cur # strtok_fields delim [] cs)
      else strtok_fields delim (c # cur) cs)"

definition strtok_all :: "char \<Rightarrow> string \<Rightarrow> string list" where
  "strtok_all delim s = strtok_fields delim [] s"

text \<open>
  The conversion \<^verbatim>\<open>%lu\<close> of \<^verbatim>\<open>sscanf\<close>, as \<^verbatim>\<open>strtoul\<close> in base 10 reads it: white space
  is skipped, a sign is accepted, at least one digit is needed; a value out of range
  becomes \<^verbatim>\<open>ULONG_MAX\<close> and a minus sign negates modulo \<open>2 ^ 64\<close> (\<^verbatim>\<open>unsigned long\<close> of 64
  bits).  The result is the value and the rest of the input.
\<close>

definition ULONG_MAX :: nat where
  "ULONG_MAX = 18446744073709551615"

fun scan_digits :: "nat \<Rightarrow> string \<Rightarrow> nat \<times> string" where
  "scan_digits acc [] = (acc, [])"
| "scan_digits acc (c # cs) =
     (if isdigit c then scan_digits (10 * acc + digit_of c) cs else (acc, c # cs))"

definition scan_lu :: "string \<Rightarrow> (nat \<times> string) option" where
  "scan_lu s =
     (let s1 = dropWhile isspace s;
          (negative, s2) =
            (case s1 of
               [] \<Rightarrow> (False, s1)
             | c # r \<Rightarrow> if c = CHR ''-'' then (True, r)
                        else if c = CHR ''+'' then (False, r)
                        else (False, s1))
      in case s2 of
           [] \<Rightarrow> None
         | c # _ \<Rightarrow>
             if isdigit c then
               (let (v, rest) = scan_digits 0 s2;
                    u = (if v > ULONG_MAX then ULONG_MAX
                         else if negative then (ULONG_MAX + 1 - v) mod (ULONG_MAX + 1)
                         else v)
                in Some (u, rest))
             else None)"

text \<open>
  \<^verbatim>\<open>sscanf(token, "%lu", &min) == 1\<close> and \<^verbatim>\<open>sscanf(token, "%lu:%lu", &min, &max) == 2\<close>:
  the values when the comparison holds.  Whatever follows the last conversion is ignored.
\<close>

definition sscanf_lu :: "string \<Rightarrow> nat option" where
  "sscanf_lu token = (case scan_lu token of None \<Rightarrow> None | Some (v, rest) \<Rightarrow> Some v)"

definition sscanf_lu_colon_lu :: "string \<Rightarrow> (nat \<times> nat) option" where
  "sscanf_lu_colon_lu token =
     (case scan_lu token of
        None \<Rightarrow> None
      | Some (v1, rest) \<Rightarrow>
          (case rest of
             [] \<Rightarrow> None
           | c # rest1 \<Rightarrow>
               if c = CHR '':'' then
                 (case scan_lu rest1 of None \<Rightarrow> None | Some (v2, rest2) \<Rightarrow> Some (v1, v2))
               else None))"

text \<open>
  \<^verbatim>\<open>extract_game_number_list\<close>.  A \<^verbatim>\<open>game_number\<close> is the pair of its fields \<^verbatim>\<open>min\<close> and
  \<^verbatim>\<open>max\<close>, the chain through \<^verbatim>\<open>next\<close> a list; \<^verbatim>\<open>NULL\<close> is the empty list.  The loop runs
  over the tokens while \<^verbatim>\<open>ok\<close> holds; its state is \<^verbatim>\<open>last_number\<close> and the list built so
  far.  On failure a message is logged, the list is freed and \<^verbatim>\<open>NULL\<close> is returned.
  The result is the list returned and the lines written to the log file.
\<close>

type_synonym game_number = "nat \<times> nat"

fun game_number_loop :: "string list \<Rightarrow> nat \<Rightarrow> game_number list \<Rightarrow> bool \<times> game_number list" where
  "game_number_loop [] last_number head = (True, head)"
| "game_number_loop (token # rest) last_number head =
     (if CHR '':'' \<in> set token then
        (case sscanf_lu_colon_lu token of
           Some (lo, hi) \<Rightarrow>
             if lo > last_number \<and> lo \<le> hi
             then game_number_loop rest hi (head @ [(lo, hi)])
             else (False, head)
         | None \<Rightarrow> (False, head))
      else
        (case sscanf_lu token of
           Some lo \<Rightarrow>
             if lo > last_number
             then game_number_loop rest lo (head @ [(lo, lo)])
             else (False, head)
         | None \<Rightarrow> (False, head)))"

definition extract_game_number_list :: "string \<Rightarrow> game_number list \<times> string list" where
  "extract_game_number_list number_list =
     (let (ok, head) = game_number_loop (strtok_all CHR '','' number_list) 0 []
      in if ok then (head, [])
         else ([], [''Numbers in '' @ number_list
                     @ '' must be in the format N or N:N and in ascending order.'']))"

text \<open>
  The branches \<^verbatim>\<open>selectonly\<close> and \<^verbatim>\<open>skipmatching\<close> of \<^verbatim>\<open>process_long_form_argument\<close>:
  \<^verbatim>\<open>exit(1)\<close> when the list is \<^verbatim>\<open>NULL\<close>.
\<close>

datatype long_form_outcome = Exit nat | Game_numbers "game_number list"

definition process_long_form_argument_number_list :: "string \<Rightarrow> long_form_outcome" where
  "process_long_form_argument_number_list associated_value =
     (let number_list = fst (extract_game_number_list associated_value)
      in if number_list \<noteq> [] then Game_numbers number_list else Exit 1)"

text \<open>
  Arguments of the documented form: a sequence of ranges, each \<open>N\<close> or \<open>N:M\<close> written with
  decimal digits only, joined by commas.  \<open>unsigned_long_value\<close> is the number that such a
  numeral stands for as an \<^verbatim>\<open>unsigned long\<close>: its decimal value, and \<^verbatim>\<open>ULONG_MAX\<close> when the
  decimal value is beyond the range.
\<close>

datatype range_text = Single string | Span string string

fun range_token :: "range_text \<Rightarrow> string" where
  "range_token (Single n) = n"
| "range_token (Span n m) = n @ '':'' @ m"

fun join_with_commas :: "string list \<Rightarrow> string" where
  "join_with_commas [] = []"
| "join_with_commas [t] = t"
| "join_with_commas (t # u # ts) = t @ '','' @ join_with_commas (u # ts)"

definition decimal_value :: "string \<Rightarrow> nat" where
  "decimal_value ds = foldl (\<lambda>acc c. 10 * acc + digit_of c) 0 ds"

definition unsigned_long_value :: "string \<Rightarrow> nat" where
  "unsigned_long_value ds = min (decimal_value ds) ULONG_MAX"

definition numeral_ok :: "string \<Rightarrow> bool" where
  "numeral_ok ds \<longleftrightarrow> ds \<noteq> [] \<and> list_all isdigit ds"

fun range_ok :: "range_text \<Rightarrow> bool" where
  "range_ok (Single n) = numeral_ok n"
| "range_ok (Span n m) = (numeral_ok n \<and> numeral_ok m)"

fun range_bounds :: "range_text \<Rightarrow> game_number" where
  "range_bounds (Single n) = (unsigned_long_value n, unsigned_long_value n)"
| "range_bounds (Span n m) = (unsigned_long_value n, unsigned_long_value m)"

fun ascending :: "nat \<Rightarrow> game_number list \<Rightarrow> bool" where
  "ascending last_number [] = True"
| "ascending last_number ((lo, hi) # rest) = (lo > last_number \<and> lo \<le> hi \<and> ascending hi rest)"

text \<open>The line that \<^verbatim>\<open>extract_game_number_list\<close> writes to the log file for an argument.\<close>

definition number_list_message :: "string \<Rightarrow> string" where
  "number_list_message number_list =
     ''Numbers in '' @ number_list @ '' must be in the format N or N:N and in ascending order.''"

text \<open>The input after a numeral does not go on with a digit.\<close>

definition no_digit_ahead :: "string \<Rightarrow> bool" where
  "no_digit_ahead rest \<longleftrightarrow> (case rest of [] \<Rightarrow> True | c # _ \<Rightarrow> \<not> isdigit c)"

section \<open>Textual variations (moves.c)\<close>

text \<open>
  A \<^verbatim>\<open>variant_move\<close> holds the text of one move of a variation (field \<^verbatim>\<open>move\<close>, here
  \<open>variant_text\<close>) and the flag \<^verbatim>\<open>matched\<close>.  A \<^verbatim>\<open>variation_list\<close> holds the array of its
  moves (field \<^verbatim>\<open>moves\<close>, here \<open>variation_moves\<close>), the counters and the number of moves
  (field \<^verbatim>\<open>length\<close>, here \<open>variation_length\<close>); the chain through \<^verbatim>\<open>next\<close> is the list
  \<^verbatim>\<open>games_to_keep\<close>.
\<close>

definition ANY_MOVE :: char where "ANY_MOVE = CHR ''*''"
definition DISALLOWED_MOVE :: char where "DISALLOWED_MOVE = CHR ''!''"

record variant_move =
  variant_text :: string
  matched :: bool

record variation_list =
  variation_moves :: "variant_move list"
  num_white_any_moves :: nat
  num_black_any_moves :: nat
  num_white_disallowed_moves :: nat
  num_black_disallowed_moves :: nat
  variation_length :: nat

text \<open>\<^verbatim>\<open>move_char\<close>; a string read at its end gives the terminating NUL.\<close>

definition isalpha :: "char \<Rightarrow> bool" where
  "isalpha c \<longleftrightarrow> c \<in> set ''ABCDEFGHIJKLMNOPQRSTUVWXYZabcdefghijklmnopqrstuvwxyz''"

definition move_char :: "char \<Rightarrow> bool" where
  "move_char c \<longleftrightarrow> isalpha c \<or> isdigit c \<or> c = CHR ''-''"

definition char_at :: "string \<Rightarrow> nat \<Rightarrow> char" where
  "char_at s i = (if i < length s then s ! i else CHR 0x00)"

definition first_char :: "string \<Rightarrow> char" where
  "first_char s = char_at s 0"

text \<open>\<^verbatim>\<open>strstr\<close> from a position of the haystack: the first match at or after it.\<close>

function strstr_from :: "string \<Rightarrow> string \<Rightarrow> nat \<Rightarrow> nat option" where
  "strstr_from haystack needle i =
     (if i + length needle > length haystack then None
      else if take (length needle) (drop i haystack) = needle then Some i
      else strstr_from haystack needle (i + 1))"
  by pat_completeness auto
termination
  by (relation "measure (\<lambda>(haystack, needle, i). Suc (length haystack) - i)") auto

declare strstr_from.simps [simp del]

text \<open>The loop \<^verbatim>\<open>while (move_char(*match_point)) match_point++\<close>.\<close>

function skip_move_chars :: "string \<Rightarrow> nat \<Rightarrow> nat" where
  "skip_move_chars s i = (if move_char (char_at s i) then skip_move_chars s (i + 1) else i)"
  by pat_completeness auto

lemma move_char_NUL: "\<not> move_char (CHR 0x00)"
  by (simp add: move_char_def isalpha_def isdigit_def)

lemma move_char_at: "move_char (char_at s i) \<Longrightarrow> i < length s"
  using move_char_NUL by (auto simp: char_at_def split: if_splits)

termination skip_move_chars
  by (relation "measure (\<lambda>(s, i). length s - i)") (auto dest: move_char_at)

declare skip_move_chars.simps [simp del]

lemma strstr_from_bounds:
  "strstr_from haystack needle i = Some j \<Longrightarrow> i \<le> j \<and> j + length needle \<le> length haystack"
proof (induction haystack needle i rule: strstr_from.induct)
  case (1 haystack needle i)
  then show ?case
    by (subst (asm) (2) strstr_from.simps) (auto split: if_splits)
qed

lemma skip_move_chars_bounds: "i \<le> skip_move_chars s i \<and> skip_move_chars s i \<le> max i (length s)"
proof (induction s i rule: skip_move_chars.induct)
  case (1 s i)
  show ?case
  proof (cases "move_char (char_at s i)")
    case True
    then show ?thesis using 1 move_char_at [OF True]
      by (subst (1 2) skip_move_chars.simps) auto
  next
    case False
    then show ?thesis by (subst (1 2) skip_move_chars.simps) auto
  qed
qed

text \<open>
  \<^verbatim>\<open>textual_variation_match\<close>.  A match found by \<^verbatim>\<open>strstr\<close> counts when it is not preceded
  and not followed by a move character.  After a match that does not count the search goes
  on behind the move characters at the match point; when there is none the loop searches
  from the same point again and never ends: the function does not return (\<open>None\<close>).
\<close>

definition match_stands_alone :: "string \<Rightarrow> string \<Rightarrow> nat \<Rightarrow> bool" where
  "match_stands_alone variation_move actual_move j =
     (let found = True;
          found = (if j \<noteq> 0 then (if move_char (char_at variation_move (j - 1)) then False else found)
                   else found);
          found = (if move_char (char_at variation_move (j + length actual_move)) then False
                   else found)
      in found)"

function textual_variation_match_from :: "string \<Rightarrow> string \<Rightarrow> nat \<Rightarrow> bool option" where
  "textual_variation_match_from variation_move actual_move match_point =
     (case strstr_from variation_move actual_move match_point of
        None \<Rightarrow> Some False
      | Some j \<Rightarrow>
          if match_stands_alone variation_move actual_move j then Some True
          else (let k = skip_move_chars variation_move j
                in if k = j then None
                   else textual_variation_match_from variation_move actual_move k))"
  by pat_completeness auto
termination
proof (relation "measure (\<lambda>(variation_move, actual_move, match_point). Suc (length variation_move) - match_point)", goal_cases)
  case 1
  show ?case by simp
next
  case (2 variation_move actual_move match_point j k)
  have "match_point \<le> j" "j \<le> length variation_move"
    using strstr_from_bounds [OF 2(1)] by simp_all
  moreover have "j \<le> k" "k \<le> max j (length variation_move)"
    using skip_move_chars_bounds [of j variation_move] 2(3) by simp_all
  ultimately show ?case using 2(4) by auto
qed

declare textual_variation_match_from.simps [simp del]

definition textual_variation_match :: "string \<Rightarrow> string \<Rightarrow> bool option" where
  "textual_variation_match variation_move actual_move =
     textual_variation_match_from variation_move actual_move 0"

text \<open>
  \<^verbatim>\<open>straight_match\<close>: the loop advances \<^verbatim>\<open>move_index\<close> while the moves match one to one;
  its result is the index reached.
\<close>

fun straight_loop :: "variation_list \<Rightarrow> nat \<Rightarrow> Move list \<Rightarrow> nat option" where
  "straight_loop variation move_index [] = Some move_index"
| "straight_loop variation move_index (next_move # rest) =
     (if move_index < variation_length variation then
        (let variation_move = variant_text (variation_moves variation ! move_index)
         in if first_char variation_move = ANY_MOVE
            then straight_loop variation (move_index + 1) rest
            else
              (case textual_variation_match variation_move (move next_move) of
                 None \<Rightarrow> None
               | Some this_move_matches \<Rightarrow>
                   (let matches =
                          (if this_move_matches
                           then first_char variation_move \<noteq> DISALLOWED_MOVE
                           else first_char variation_move = DISALLOWED_MOVE)
                    in if matches then straight_loop variation (move_index + 1) rest
                       else Some move_index)))
      else Some move_index)"

definition straight_match :: "Move list \<Rightarrow> variation_list \<Rightarrow> bool option" where
  "straight_match current_game_head variation =
     (case straight_loop variation 0 current_game_head of
        None \<Rightarrow> None
      | Some move_index \<Rightarrow> Some (move_index = variation_length variation))"

text \<open>
  \<^verbatim>\<open>permutation_match\<close>.  The variation is passed by value, so the counters are changed
  in the copy only, but its array of moves is shared with the stored variation: the
  function returns its answer and the array as it leaves it.

  Stage one looks for a disallowed move: \<open>disallowed_scan\<close> is the inner loop over the moves
  of the variation for one colour, \<open>stage_one\<close> the outer loop over the moves of the game.
\<close>

function disallowed_scan :: "variant_move list \<Rightarrow> nat \<Rightarrow> nat \<Rightarrow> string \<Rightarrow> bool option" where
  "disallowed_scan moves_of_the_variation len variant_index actual_move =
     (if variant_index < len then
        (if first_char (variant_text (moves_of_the_variation ! variant_index)) = DISALLOWED_MOVE
         then
           (case textual_variation_match
                   (variant_text (moves_of_the_variation ! variant_index)) actual_move of
              None \<Rightarrow> None
            | Some True \<Rightarrow> Some True
            | Some False \<Rightarrow>
                disallowed_scan moves_of_the_variation len (variant_index + 2) actual_move)
         else disallowed_scan moves_of_the_variation len (variant_index + 2) actual_move)
      else Some False)"
  by pat_completeness auto
termination
  by (relation "measure (\<lambda>(ms, len, variant_index, a). len - variant_index)") auto

declare disallowed_scan.simps [simp del]

fun stage_one :: "variant_move list \<Rightarrow> nat \<Rightarrow> nat \<Rightarrow> bool \<Rightarrow> Move list \<Rightarrow> bool option" where
  "stage_one moves_of_the_variation len tested_moves white_to_move [] = Some False"
| "stage_one moves_of_the_variation len tested_moves white_to_move (next_move # rest) =
     (if tested_moves < len then
        (case disallowed_scan moves_of_the_variation len (if white_to_move then 0 else 1)
                (move next_move) of
           None \<Rightarrow> None
         | Some True \<Rightarrow> Some True
         | Some False \<Rightarrow>
             stage_one moves_of_the_variation len (tested_moves + 1) (\<not> white_to_move) rest)
      else Some False)"

text \<open>
  Stage two matches each move of the game against a move of the variation of its colour
  that is not yet matched (\<open>find_unmatched\<close>), or else uses up one any-move of that colour.
  The result of \<open>stage_two\<close> is \<^verbatim>\<open>matches\<close>, \<^verbatim>\<open>matched_moves\<close> and the array.
\<close>

function find_unmatched :: "variant_move list \<Rightarrow> nat \<Rightarrow> nat \<Rightarrow> string \<Rightarrow> nat option option" where
  "find_unmatched moves_of_the_variation len variant_index actual_move =
     (if variant_index < len then
        (if matched (moves_of_the_variation ! variant_index)
         then find_unmatched moves_of_the_variation len (variant_index + 2) actual_move
         else
           (case textual_variation_match
                   (variant_text (moves_of_the_variation ! variant_index)) actual_move of
              None \<Rightarrow> None
            | Some True \<Rightarrow> Some (Some variant_index)
            | Some False \<Rightarrow>
                find_unmatched moves_of_the_variation len (variant_index + 2) actual_move))
      else Some None)"
  by pat_completeness auto
termination
  by (relation "measure (\<lambda>(ms, len, variant_index, a). len - variant_index)") auto

declare find_unmatched.simps [simp del]

fun stage_two ::
  "variant_move list \<Rightarrow> nat \<Rightarrow> nat \<Rightarrow> nat \<Rightarrow> nat \<Rightarrow> bool \<Rightarrow> Move list
     \<Rightarrow> (bool \<times> nat \<times> variant_move list) option" where
  "stage_two ms len white_any black_any matched_moves white_to_move [] =
     Some (True, matched_moves, ms)"
| "stage_two ms len white_any black_any matched_moves white_to_move (next_move # rest) =
     (if matched_moves < len then
        (case find_unmatched ms len (if white_to_move then 0 else 1) (move next_move) of
           None \<Rightarrow> None
         | Some (Some variant_index) \<Rightarrow>
             stage_two (ms[variant_index := (ms ! variant_index)\<lparr>matched := True\<rparr>]) len
               white_any black_any (matched_moves + 1) (\<not> white_to_move) rest
         | Some None \<Rightarrow>
             if white_to_move \<and> white_any > 0
             then stage_two ms len (white_any - 1) black_any (matched_moves + 1)
                    (\<not> white_to_move) rest
             else if \<not> white_to_move \<and> black_any > 0
             then stage_two ms len white_any (black_any - 1) (matched_moves + 1)
                    (\<not> white_to_move) rest
             else Some (False, matched_moves, ms))
      else Some (True, matched_moves, ms))"

text \<open>
  The loops over the array: clearing every \<^verbatim>\<open>matched\<close> flag, marking the disallowed
  moves as matched, and the number of disallowed moves of a colour, by which the any-move
  counter of the copy is incremented.
\<close>

definition clear_matched :: "nat \<Rightarrow> variant_move list \<Rightarrow> variant_move list" where
  "clear_matched len ms = map (\<lambda>m. m\<lparr>matched := False\<rparr>) (take len ms) @ drop len ms"

definition disallowed_become_any :: "nat \<Rightarrow> variant_move list \<Rightarrow> variant_move list" where
  "disallowed_become_any len ms =
     map (\<lambda>m. if first_char (variant_text m) = DISALLOWED_MOVE then m\<lparr>matched := True\<rparr> else m)
       (take len ms) @ drop len ms"

definition count_disallowed :: "nat \<Rightarrow> variant_move list \<Rightarrow> bool \<Rightarrow> nat" where
  "count_disallowed len ms white =
     length (filter (\<lambda>i. first_char (variant_text (ms ! i)) = DISALLOWED_MOVE \<and> even i = white)
               [0 ..< min len (length ms)])"

definition permutation_match ::
  "Move list \<Rightarrow> variation_list \<Rightarrow> (bool \<times> variant_move list) option" where
  "permutation_match current_game_head variation =
     (let len = variation_length variation;
          ms0 = clear_matched len (variation_moves variation)
      in case (if num_white_disallowed_moves variation > 0
                  \<or> num_black_disallowed_moves variation > 0
               then stage_one ms0 len 0 True current_game_head
               else Some False) of
           None \<Rightarrow> None
         | Some disallowed_move_found \<Rightarrow>
             if disallowed_move_found then Some (False, ms0)
             else
               (let convert = (num_white_disallowed_moves variation > 0
                               \<or> num_black_disallowed_moves variation > 0);
                    ms1 = (if convert then disallowed_become_any len ms0 else ms0);
                    white_any = num_white_any_moves variation
                                + (if convert then count_disallowed len ms0 True else 0);
                    black_any = num_black_any_moves variation
                                + (if convert then count_disallowed len ms0 False else 0)
                in case stage_two ms1 len white_any black_any 0 True current_game_head of
                     None \<Rightarrow> None
                   | Some (matches, matched_moves, ms2) \<Rightarrow>
                       Some (if matches then matched_moves = len else matches, ms2)))"

text \<open>
  \<^verbatim>\<open>check_textual_variations\<close>: the stored variations are tried in turn until one is
  wanted.  The result is the answer and the stored variations as the call leaves them.
\<close>

fun variations_loop ::
  "StateInfo \<Rightarrow> Move list \<Rightarrow> variation_list list \<Rightarrow> (bool \<times> variation_list list) option" where
  "variations_loop globals current_game_head [] = Some (False, [])"
| "variations_loop globals current_game_head (variation # rest) =
     (case (if match_permutations globals
            then permutation_match current_game_head variation
            else (case straight_match current_game_head variation of
                    None \<Rightarrow> None
                  | Some wanted \<Rightarrow> Some (wanted, variation_moves variation))) of
        None \<Rightarrow> None
      | Some (wanted, ms) \<Rightarrow>
          (let variation1 = variation\<lparr>variation_moves := ms\<rparr>
           in if wanted then Some (True, variation1 # rest)
              else (case variations_loop globals current_game_head rest of
                      None \<Rightarrow> None
                    | Some (wanted1, rest1) \<Rightarrow> Some (wanted1, variation1 # rest1))))"

definition check_textual_variations ::
  "StateInfo \<Rightarrow> variation_list list \<Rightarrow> Game \<Rightarrow> (bool \<times> variation_list list) option" where
  "check_textual_variations globals games_to_keep game_details =
     (if games_to_keep \<noteq> []
      then variations_loop globals (moves game_details) games_to_keep
      else Some (True, games_to_keep))"

text \<open>The stored variations after a sequence of games has been checked.\<close>

fun games_run ::
  "StateInfo \<Rightarrow> variation_list list \<Rightarrow> Game list \<Rightarrow> variation_list list option" where
  "games_run globals games_to_keep [] = Some games_to_keep"
| "games_run globals games_to_keep (game # rest) =
     (case check_textual_variations globals games_to_keep game of
        None \<Rightarrow> None
      | Some (wanted, games_to_keep1) \<Rightarrow> games_run globals games_to_keep1 rest)"

text \<open>
  A stored variation is well formed when \<^verbatim>\<open>length\<close> is the number of moves in its array,
  as \<^verbatim>\<open>compose_variation\<close> builds it.  \<open>forget_matched\<close> is a variation without its \<^verbatim>\<open>matched\<close>
  flags, \<open>plain_move\<close> a move of a game whose text starts with a move character, and
  \<open>returns\<close> says that a call comes back.
\<close>

definition well_formed :: "variation_list \<Rightarrow> bool" where
  "well_formed variation \<longleftrightarrow> variation_length variation = length (variation_moves variation)"

definition forget_matched :: "variation_list \<Rightarrow> variation_list" where
  "forget_matched variation =
     variation\<lparr>variation_moves := map (\<lambda>m. m\<lparr>matched := False\<rparr>) (variation_moves variation)\<rparr>"

definition plain_move :: "Move \<Rightarrow> bool" where
  "plain_move m \<longleftrightarrow> move_char (first_char (move m))"

definition returns :: "'a option \<Rightarrow> bool" where
  "returns x \<longleftrightarrow> x \<noteq> None"

section \<open>Splitting variations (grammar.c)\<close>

subsection \<open>The game in store\<close>

text \<open>
  \<^verbatim>\<open>split_variants\<close> works on the linked records of a game in place, and the moves before a
  variation are shared between the main line and the line of the variation.  So here the
  records are cells of a store: a pointer is an address or \<^verbatim>\<open>NULL\<close> (\<open>None\<close>), and the store
  holds, field by field, what the cell at an address contains.  The fields are those that
  \<^verbatim>\<open>split_variants\<close> and the functions it calls read or write: of a \<^verbatim>\<open>Move\<close>, \<^verbatim>\<open>next\<close>,
  \<^verbatim>\<open>Variants\<close>, \<^verbatim>\<open>comment_list\<close> and \<^verbatim>\<open>terminating_result\<close>; of a \<^verbatim>\<open>Variation\<close>,
  \<^verbatim>\<open>prefix_comment\<close>, \<^verbatim>\<open>suffix_comment\<close>, \<^verbatim>\<open>moves\<close> and \<^verbatim>\<open>next\<close>; of a \<^verbatim>\<open>CommentList\<close>, \<^verbatim>\<open>next\<close>;
  of the \<^verbatim>\<open>Game\<close>, \<^verbatim>\<open>tags\<close>, \<^verbatim>\<open>prefix_comment\<close>, \<^verbatim>\<open>moves\<close> and \<^verbatim>\<open>cumulative_hash_value\<close>.
  \<open>allocated\<close> is the address of
  the next \<^verbatim>\<open>CommentList\<close> cell that \<^verbatim>\<open>malloc\<close> gives, \<open>freed\<close> lists the variation chains
  passed to \<^verbatim>\<open>free_variation\<close>, and \<open>printed\<close> holds the text of each game written.
\<close>

record store =
  Move_next :: "nat \<Rightarrow> nat option"
  Move_Variants :: "nat \<Rightarrow> nat option"
  Move_comment_list :: "nat \<Rightarrow> nat option"
  Move_terminating_result :: "nat \<Rightarrow> string option"
  Variation_prefix_comment :: "nat \<Rightarrow> nat option"
  Variation_suffix_comment :: "nat \<Rightarrow> nat option"
  Variation_moves :: "nat \<Rightarrow> nat option"
  Variation_next :: "nat \<Rightarrow> nat option"
  CommentList_next :: "nat \<Rightarrow> nat option"
  game_tags :: tags
  game_prefix_comment :: "nat option"
  game_moves :: "nat option"
  game_cumulative_hash_value :: HashCode
  allocated :: nat
  freed :: "nat list"
  printed :: "string list"

text \<open>
  A loop that follows pointers need not end (the chain may be circular).  Every loop and
  every call below takes a bound on the number of its steps and gives \<open>None\<close> when the
  bound is used up.

  \<open>last_cell\<close> is the loop \<^verbatim>\<open>while (tail->next != NULL) tail = tail->next\<close>, for the
  \<^verbatim>\<open>next\<close> field \<open>nx\<close>.
\<close>

fun last_cell :: "nat \<Rightarrow> (nat \<Rightarrow> nat option) \<Rightarrow> nat \<Rightarrow> nat option" where
  "last_cell 0 nx tail = None"
| "last_cell (Suc n) nx tail =
     (case nx tail of None \<Rightarrow> Some tail | Some following \<Rightarrow> last_cell n nx following)"

text \<open>\<^verbatim>\<open>append_comment\<close>: the list returned and the store.\<close>

definition append_comment ::
  "nat \<Rightarrow> nat option \<Rightarrow> nat option \<Rightarrow> store \<Rightarrow> (nat option \<times> store) option" where
  "append_comment n item list h =
     (case list of
        None \<Rightarrow> Some (item, h)
      | Some l \<Rightarrow>
          (case last_cell n (CommentList_next h) l of
             None \<Rightarrow> None
           | Some tail \<Rightarrow>
               Some (list, h\<lparr>CommentList_next := (CommentList_next h)(tail := item)\<rparr>)))"

text \<open>
  The first loop of \<^verbatim>\<open>split_variants\<close> gathers the suffix comments of the variations of
  every move of the main line: \<open>gather_variants\<close> is the inner loop over the variations of
  one move, \<open>gather_moves\<close> the outer loop over the moves.
\<close>

fun gather_variants :: "nat \<Rightarrow> nat \<Rightarrow> nat option \<Rightarrow> store \<Rightarrow> store option" where
  "gather_variants 0 this_move variants h = None"
| "gather_variants (Suc n) this_move variants h =
     (case variants of
        None \<Rightarrow> Some h
      | Some v \<Rightarrow>
          (case (if Variation_suffix_comment h v \<noteq> None
                 then (case append_comment n (Variation_suffix_comment h v)
                              (Move_comment_list h this_move) h of
                         None \<Rightarrow> None
                       | Some (l, h1) \<Rightarrow>
                           Some (h1\<lparr>Move_comment_list := (Move_comment_list h1)(this_move := l),
                                    Variation_suffix_comment :=
                                      (Variation_suffix_comment h1)(v := None)\<rparr>))
                 else Some h) of
             None \<Rightarrow> None
           | Some h2 \<Rightarrow> gather_variants n this_move (Variation_next h2 v) h2))"

fun gather_moves :: "nat \<Rightarrow> nat option \<Rightarrow> store \<Rightarrow> store option" where
  "gather_moves 0 this_move h = None"
| "gather_moves (Suc n) this_move h =
     (case this_move of
        None \<Rightarrow> Some h
      | Some m \<Rightarrow>
          (case gather_variants n m (Move_Variants h m) h of
             None \<Rightarrow> None
           | Some h1 \<Rightarrow> gather_moves n (Move_next h1 m) h1))"

text \<open>
  Counting the plies (output.c).  \<open>count_single_move_ply\<close> and \<open>count_move_list_ply\<close> call
  each other; \<open>single_move_loop\<close> is the loop of the first over the variations of a move and
  \<open>move_list_loop\<close> the loop of the second over the moves of a line, each with the
  \<^verbatim>\<open>unsigned\<close> variable \<^verbatim>\<open>count\<close> in its state.
\<close>

fun count_single_move_ply :: "nat \<Rightarrow> store \<Rightarrow> nat \<Rightarrow> bool \<Rightarrow> 32 word option"
  and single_move_loop :: "nat \<Rightarrow> store \<Rightarrow> nat option \<Rightarrow> bool \<Rightarrow> 32 word \<Rightarrow> 32 word option"
  and count_move_list_ply :: "nat \<Rightarrow> store \<Rightarrow> nat option \<Rightarrow> bool \<Rightarrow> 32 word option"
  and move_list_loop :: "nat \<Rightarrow> store \<Rightarrow> nat option \<Rightarrow> bool \<Rightarrow> 32 word \<Rightarrow> 32 word option"
where
  "count_single_move_ply 0 h move_details count_variations = None"
| "count_single_move_ply (Suc n) h move_details count_variations =
     (if count_variations
      then single_move_loop n h (Move_Variants h move_details) count_variations 1
      else Some 1)"
| "single_move_loop 0 h variant count_variations count = None"
| "single_move_loop (Suc n) h variant count_variations count =
     (case variant of
        None \<Rightarrow> Some count
      | Some v \<Rightarrow>
          (case count_move_list_ply n h (Variation_moves h v) count_variations of
             None \<Rightarrow> None
           | Some c \<Rightarrow> single_move_loop n h (Variation_next h v) count_variations (count + c)))"
| "count_move_list_ply 0 h move_list count_variations = None"
| "count_move_list_ply (Suc n) h move_list count_variations =
     move_list_loop n h move_list count_variations 0"
| "move_list_loop 0 h move_list count_variations count = None"
| "move_list_loop (Suc n) h move_list count_variations count =
     (case move_list of
        None \<Rightarrow> Some count
      | Some m \<Rightarrow>
          (case count_single_move_ply n h m count_variations of
             None \<Rightarrow> None
           | Some c \<Rightarrow> move_list_loop n h (Move_next h m) count_variations (count + c)))"

text \<open>The conversion \<^verbatim>\<open>%u\<close> of \<^verbatim>\<open>sprintf\<close>: the decimal digits of the number.\<close>

fun decimal_digits :: "nat \<Rightarrow> string" where
  "decimal_digits n =
     (if n < 10 then [''0123456789'' ! n]
      else decimal_digits (n div 10) @ [''0123456789'' ! (n mod 10)])"

declare decimal_digits.simps [simp del]

text \<open>
  \<^verbatim>\<open>add_plycount\<close> and \<^verbatim>\<open>add_total_plycount\<close> set a tag to the number of plies.  The tag
  \<^verbatim>\<open>HashCode\<close> is set by \<open>add_hashcode_tag\<close> above, which reads and writes these two fields
  of the game: \<open>hash_and_tags\<close>.
\<close>

definition add_plycount :: "nat \<Rightarrow> store \<Rightarrow> store option" where
  "add_plycount n h =
     (case count_move_list_ply n h (game_moves h) False of
        None \<Rightarrow> None
      | Some count \<Rightarrow>
          Some (h\<lparr>game_tags := (game_tags h)(PLY_COUNT_TAG \<mapsto> decimal_digits (unat count))\<rparr>))"

definition add_total_plycount :: "nat \<Rightarrow> bool \<Rightarrow> store \<Rightarrow> store option" where
  "add_total_plycount n count_variations h =
     (case count_move_list_ply n h (game_moves h) count_variations of
        None \<Rightarrow> None
      | Some count \<Rightarrow>
          Some (h\<lparr>game_tags :=
                    (game_tags h)(TOTAL_PLY_COUNT_TAG \<mapsto> decimal_digits (unat count))\<rparr>))"

definition hash_and_tags :: "store \<Rightarrow> Game" where
  "hash_and_tags h =
     \<lparr>tags = game_tags h, prefix_comment = [], moves = [],
      cumulative_hash_value = game_cumulative_hash_value h\<rparr>"

text \<open>
  \<^verbatim>\<open>format_game\<close> (output.c).  With a line number marker a comment is created and put in
  front of the prefix comments of the game.  When there is a final board, the tags
  \<^verbatim>\<open>PlyCount\<close>, \<^verbatim>\<open>TotalPlyCount\<close> and \<^verbatim>\<open>HashCode\<close> are set as the configuration asks, and
  the game is printed.  The printing functions of output.c assign to no field of the
  game; what they write is given by the parameter \<open>print_game\<close>, a function of the store.
  Modelled from the spec: \<^verbatim>\<open>rewrite_game\<close> is declared in apply.h and its code is not among
  the sources.  It is taken to leave the fields of the store as they are, and the
  parameter \<open>rewrite_game\<close> tells of a store whether there is a final board.
\<close>

definition format_game ::
  "nat \<Rightarrow> StateInfo \<Rightarrow> (store \<Rightarrow> bool) \<Rightarrow> (store \<Rightarrow> string) \<Rightarrow> store \<Rightarrow> store option" where
  "format_game n globals rewrite_game print_game h =
     (let h1 = (if line_number_marker globals \<noteq> None
                then (let comment = allocated h
                      in h\<lparr>allocated := comment + 1,
                           CommentList_next := (CommentList_next h)(comment := game_prefix_comment h),
                           game_prefix_comment := Some comment\<rparr>)
                else h);
          final_board = rewrite_game h1
      in if final_board then
           (case (if output_plycount globals then add_plycount n h1 else Some h1) of
              None \<Rightarrow> None
            | Some h2 \<Rightarrow>
                (case (if output_total_plycount globals
                       then add_total_plycount n
                              (keep_variations globals \<and> \<not> split_variants_flag globals) h2
                       else Some h2) of
                   None \<Rightarrow> None
                 | Some h3 \<Rightarrow>
                     (let h4 = (if add_hashcode_tag_flag globals
                                   \<or> game_tags h3 HASHCODE_TAG \<noteq> None
                                then h3\<lparr>game_tags := tags (add_hashcode_tag (hash_and_tags h3))\<rparr>
                                else h3)
                      in Some (h4\<lparr>printed := printed h4 @ [print_game h4]\<rparr>))))
         else Some h1)"

text \<open>
  The steps of the loop over the variations of a move: \<open>supply_result\<close> gives the last move
  of the variation the result \<^verbatim>\<open>*\<close> if it has none; \<open>replace_line\<close> is the assignment to
  \<^verbatim>\<open>prev->next\<close>, or to \<^verbatim>\<open>game->moves\<close> when \<^verbatim>\<open>prev\<close> is \<^verbatim>\<open>NULL\<close>; \<open>append_prefix\<close> appends the
  prefix comment of the variation to the comments of \<^verbatim>\<open>prev\<close> or of the game, and
  \<open>remove_appended\<close> takes it off again.  In \<open>remove_appended\<close> the loop
  \<^verbatim>\<open>while (list->next != prefix_comment && list->next != NULL)\<close> is \<open>cell_before\<close>; with
  an empty list it would read through \<^verbatim>\<open>NULL\<close>, which is \<open>None\<close> here.
\<close>

definition supply_result :: "nat \<Rightarrow> nat \<Rightarrow> store \<Rightarrow> store option" where
  "supply_result n variant_moves h =
     (case last_cell n (Move_next h) variant_moves of
        None \<Rightarrow> None
      | Some last_move \<Rightarrow>
          Some (if Move_terminating_result h last_move = None
                then h\<lparr>Move_terminating_result :=
                          (Move_terminating_result h)(last_move \<mapsto> ''*'')\<rparr>
                else h))"

definition replace_line :: "nat option \<Rightarrow> nat option \<Rightarrow> store \<Rightarrow> store" where
  "replace_line prev line h =
     (case prev of
        Some p \<Rightarrow> h\<lparr>Move_next := (Move_next h)(p := line)\<rparr>
      | None \<Rightarrow> h\<lparr>game_moves := line\<rparr>)"

definition append_prefix :: "nat \<Rightarrow> nat option \<Rightarrow> nat option \<Rightarrow> store \<Rightarrow> store option" where
  "append_prefix n prev prefix h =
     (case prev of
        Some p \<Rightarrow>
          (case append_comment n prefix (Move_comment_list h p) h of
             None \<Rightarrow> None
           | Some (l, h1) \<Rightarrow> Some (h1\<lparr>Move_comment_list := (Move_comment_list h1)(p := l)\<rparr>))
      | None \<Rightarrow>
          (case append_comment n prefix (game_prefix_comment h) h of
             None \<Rightarrow> None
           | Some (l, h1) \<Rightarrow> Some (h1\<lparr>game_prefix_comment := l\<rparr>)))"

fun cell_before :: "nat \<Rightarrow> (nat \<Rightarrow> nat option) \<Rightarrow> nat option \<Rightarrow> nat \<Rightarrow> nat option" where
  "cell_before 0 nx prefix list = None"
| "cell_before (Suc n) nx prefix list =
     (case nx list of
        None \<Rightarrow> Some list
      | Some following \<Rightarrow>
          if nx list \<noteq> prefix then cell_before n nx prefix following
          else Some list)"

definition remove_appended :: "nat \<Rightarrow> nat option \<Rightarrow> nat option \<Rightarrow> store \<Rightarrow> store option" where
  "remove_appended n prev prefix h =
     (let list = (case prev of Some p \<Rightarrow> Move_comment_list h p | None \<Rightarrow> game_prefix_comment h)
      in if list = prefix then
           Some (case prev of
                   Some p \<Rightarrow> h\<lparr>Move_comment_list := (Move_comment_list h)(p := None)\<rparr>
                 | None \<Rightarrow> h\<lparr>game_prefix_comment := None\<rparr>)
         else
           (case list of
              None \<Rightarrow> None
            | Some l \<Rightarrow>
                (case cell_before n (CommentList_next h) prefix l of
                   None \<Rightarrow> None
                 | Some cell \<Rightarrow>
                     Some (h\<lparr>CommentList_next := (CommentList_next h)(cell := None)\<rparr>))))"

text \<open>
  What is done for a move after its variations: when it has variations they are freed,
  \<^verbatim>\<open>Variants\<close> is cleared and the move is put back behind \<^verbatim>\<open>prev\<close>.  \<^verbatim>\<open>free_variation\<close>
  gives the storage of the variations, of their moves and of their comments back; the
  store has no notion of storage given back, so it keeps the cells and notes the call.
\<close>

definition dispose_variations :: "nat option \<Rightarrow> nat \<Rightarrow> store \<Rightarrow> store" where
  "dispose_variations prev this_move h =
     (case Move_Variants h this_move of
        None \<Rightarrow> h
      | Some variants \<Rightarrow>
          replace_line prev (Some this_move)
            (h\<lparr>freed := freed h @ [variants],
               Move_Variants := (Move_Variants h)(this_move := None)\<rparr>))"

subsection \<open>\<^verbatim>\<open>split_variants\<close>\<close>

text \<open>
  \<^verbatim>\<open>split_variants\<close>, the loop over the moves of the main line (\<open>moves_loop\<close>, with
  \<^verbatim>\<open>move\<close> and \<^verbatim>\<open>prev\<close> as its state) and the loop over the variations of a move
  (\<open>variants_loop\<close>, with \<^verbatim>\<open>variants\<close> as its state).
\<close>

fun split_variants ::
    "nat \<Rightarrow> StateInfo \<Rightarrow> (store \<Rightarrow> bool) \<Rightarrow> (store \<Rightarrow> string) \<Rightarrow> nat \<Rightarrow> store \<Rightarrow> store option"
  and moves_loop ::
    "nat \<Rightarrow> StateInfo \<Rightarrow> (store \<Rightarrow> bool) \<Rightarrow> (store \<Rightarrow> string) \<Rightarrow> nat \<Rightarrow> nat option \<Rightarrow> nat option
       \<Rightarrow> store \<Rightarrow> store option"
  and variants_loop ::
    "nat \<Rightarrow> StateInfo \<Rightarrow> (store \<Rightarrow> bool) \<Rightarrow> (store \<Rightarrow> string) \<Rightarrow> nat \<Rightarrow> nat option \<Rightarrow> nat option
       \<Rightarrow> store \<Rightarrow> store option"
where
  "split_variants 0 globals rewrite_game print_game depth h = None"
| "split_variants (Suc n) globals rewrite_game print_game depth h =
     (case gather_moves n (game_moves h) h of
        None \<Rightarrow> None
      | Some h1 \<Rightarrow>
          (case format_game n globals rewrite_game print_game h1 of
             None \<Rightarrow> None
           | Some h2 \<Rightarrow>
               if split_depth_limit globals = 0 \<or> split_depth_limit globals > depth then
                 (let result_tag = game_tags h2 RESULT_TAG;
                      h3 = h2\<lparr>game_tags := (game_tags h2)(RESULT_TAG \<mapsto> ''*'')\<rparr>
                  in case moves_loop n globals rewrite_game print_game depth (game_moves h3) None h3 of
                       None \<Rightarrow> None
                     | Some h4 \<Rightarrow>
                         Some (h4\<lparr>game_tags := (game_tags h4)(RESULT_TAG := result_tag)\<rparr>))
               else Some h2))"
| "moves_loop 0 globals rewrite_game print_game depth this_move prev h = None"
| "moves_loop (Suc n) globals rewrite_game print_game depth this_move prev h =
     (case this_move of
        None \<Rightarrow> Some h
      | Some m \<Rightarrow>
          (case variants_loop n globals rewrite_game print_game depth prev (Move_Variants h m) h of
             None \<Rightarrow> None
           | Some h1 \<Rightarrow>
               (let h2 = dispose_variations prev m h1
                in moves_loop n globals rewrite_game print_game depth (Move_next h2 m) (Some m) h2)))"
| "variants_loop 0 globals rewrite_game print_game depth prev variants h = None"
| "variants_loop (Suc n) globals rewrite_game print_game depth prev variants h =
     (case variants of
        None \<Rightarrow> Some h
      | Some v \<Rightarrow>
          (let next_variant = Variation_next h v
           in case Variation_moves h v of
                None \<Rightarrow> variants_loop n globals rewrite_game print_game depth prev next_variant h
              | Some variant_moves \<Rightarrow>
                  (case supply_result n variant_moves h of
                     None \<Rightarrow> None
                   | Some h1 \<Rightarrow>
                       (let h2 = replace_line prev (Some variant_moves) h1;
                            h3 = h2\<lparr>Variation_next := (Variation_next h2)(v := None)\<rparr>;
                            prefix = Variation_prefix_comment h3 v
                        in case (if prefix \<noteq> None
                                 then append_prefix n prev prefix h3 else Some h3) of
                             None \<Rightarrow> None
                           | Some h4 \<Rightarrow>
                               (case split_variants n globals rewrite_game print_game (depth + 1) h4 of
                                  None \<Rightarrow> None
                                | Some h5 \<Rightarrow>
                                    (case (if prefix \<noteq> None
                                           then remove_appended n prev prefix h5
                                           else Some h5) of
                                       None \<Rightarrow> None
                                     | Some h6 \<Rightarrow>
                                         variants_loop n globals rewrite_game print_game depth prev
                                           next_variant
                                           (h6\<lparr>Variation_next :=
                                                 (Variation_next h6)(v := next_variant)\<rparr>)))))))"

subsection \<open>Conditions on the store\<close>

text \<open>The conditions and relations between stores that the proofs about \<^verbatim>\<open>split_variants\<close> use.\<close>

text \<open>
  \<open>only_comments h h'\<close>: from \<open>h\<close> to \<open>h'\<close> the moves, the variations and the tag \<^verbatim>\<open>Result\<close> are
  as they were, but for suffix comments that were taken from their variations.
\<close>

definition only_comments :: "store \<Rightarrow> store \<Rightarrow> bool" where
  "only_comments h h' \<longleftrightarrow>
     Move_next h' = Move_next h \<and> Move_Variants h' = Move_Variants h
     \<and> Variation_moves h' = Variation_moves h
     \<and> Variation_prefix_comment h' = Variation_prefix_comment h
     \<and> Variation_next h' = Variation_next h
     \<and> game_tags h' RESULT_TAG = game_tags h RESULT_TAG \<and> game_moves h' = game_moves h
     \<and> (\<forall>v. Variation_suffix_comment h' v = None
              \<or> Variation_suffix_comment h' v = Variation_suffix_comment h v)
     \<and> allocated h \<le> allocated h'"

definition preserved :: "store \<Rightarrow> store \<Rightarrow> bool" where
  "preserved h h' \<longleftrightarrow>
     Variation_moves h' = Variation_moves h
     \<and> Variation_prefix_comment h' = Variation_prefix_comment h
     \<and> Variation_next h' = Variation_next h
     \<and> game_tags h' RESULT_TAG = game_tags h RESULT_TAG
     \<and> (\<forall>m. Move_Variants h' m = None \<or> Move_Variants h' m = Move_Variants h m)
     \<and> (\<forall>v. Variation_suffix_comment h' v = None
              \<or> Variation_suffix_comment h' v = Variation_suffix_comment h v)
     \<and> allocated h \<le> allocated h'"

text \<open>
  A game built by the parser is a tree: the moves of the main line are at level 0, the
  variations of a move are at the level of the move, and the moves of a variation are one
  level further down.  \<open>levels lvl vlvl k X h\<close> says that the level functions \<open>lvl\<close> (of moves)
  and \<open>vlvl\<close> (of variations) fit the pointers of the store \<open>h\<close> from level \<open>k\<close> on, but for the
  \<^verbatim>\<open>next\<close> pointers of the moves in \<open>X\<close>.
\<close>

definition levels :: "(nat \<Rightarrow> nat) \<Rightarrow> (nat \<Rightarrow> nat) \<Rightarrow> nat \<Rightarrow> nat set \<Rightarrow> store \<Rightarrow> bool" where
  "levels lvl vlvl k X h \<longleftrightarrow>
     (\<forall>m m'. m \<notin> X \<longrightarrow> k \<le> lvl m \<longrightarrow> Move_next h m = Some m' \<longrightarrow> lvl m' = lvl m)
     \<and> (\<forall>m v. k \<le> lvl m \<longrightarrow> Move_Variants h m = Some v \<longrightarrow> vlvl v = lvl m)
     \<and> (\<forall>v v'. k \<le> vlvl v \<longrightarrow> Variation_next h v = Some v' \<longrightarrow> vlvl v' = vlvl v)
     \<and> (\<forall>v m. k \<le> vlvl v \<longrightarrow> Variation_moves h v = Some m \<longrightarrow> lvl m = Suc (vlvl v))"

text \<open>
  While the line of a variation at level \<open>k\<close> is written, the main line of the game starts
  with moves of the lines above: the set \<open>old\<close>.  Their variations are gone already, and
  their \<^verbatim>\<open>next\<close> pointers lead to one another or into level \<open>k\<close>.  \<open>seen\<close> is the set of the
  moves that the loop over the main line has passed; \<^verbatim>\<open>prev\<close> is the last of them.
\<close>

definition outer :: "(nat \<Rightarrow> nat) \<Rightarrow> nat \<Rightarrow> nat set \<Rightarrow> nat option \<Rightarrow> store \<Rightarrow> bool" where
  "outer lvl k old prev h \<longleftrightarrow>
     (\<forall>m \<in> old. lvl m < k \<and> Move_Variants h m = None
        \<and> (Some m \<noteq> prev \<longrightarrow> (\<forall>m'. Move_next h m = Some m' \<longrightarrow> m' \<in> old \<or> lvl m' = k)))"

definition passed :: "(nat \<Rightarrow> nat) \<Rightarrow> nat \<Rightarrow> nat set \<Rightarrow> nat set \<Rightarrow> nat option \<Rightarrow> store \<Rightarrow> bool" where
  "passed lvl k old seen prev h \<longleftrightarrow>
     (\<forall>m \<in> seen. (m \<in> old \<or> lvl m = k) \<and> Move_Variants h m = None
        \<and> (Some m \<noteq> prev \<longrightarrow> (\<forall>m'. Move_next h m = Some m' \<longrightarrow> m' \<in> seen)))
     \<and> (case prev of
           Some p \<Rightarrow> p \<in> seen \<and> (\<forall>m. game_moves h = Some m \<longrightarrow> m \<in> seen)
         | None \<Rightarrow> seen = {})"

definition line_from :: "nat option \<Rightarrow> store \<Rightarrow> nat option" where
  "line_from prev h = (case prev of Some p \<Rightarrow> Move_next h p | None \<Rightarrow> game_moves h)"

definition at_level :: "(nat \<Rightarrow> nat) \<Rightarrow> nat \<Rightarrow> nat set \<Rightarrow> nat option \<Rightarrow> bool" where
  "at_level lvl k old p \<longleftrightarrow> (\<forall>m. p = Some m \<longrightarrow> m \<in> old \<or> lvl m = k)"

text \<open>What the three loops restore.\<close>

definition restored :: "(nat \<Rightarrow> nat) \<Rightarrow> nat \<Rightarrow> store \<Rightarrow> store \<Rightarrow> bool" where
  "restored lvl k h h' \<longleftrightarrow>
     Move_next h' = Move_next h \<and> game_moves h' = game_moves h
     \<and> (\<forall>m. lvl m < k \<longrightarrow> Move_Variants h' m = Move_Variants h m)"

definition restored_but :: "(nat \<Rightarrow> nat) \<Rightarrow> nat \<Rightarrow> nat option \<Rightarrow> store \<Rightarrow> store \<Rightarrow> bool" where
  "restored_but lvl k prev h h' \<longleftrightarrow>
     (\<forall>m. Some m \<noteq> prev \<longrightarrow> Move_next h' m = Move_next h m)
     \<and> (prev \<noteq> None \<longrightarrow> game_moves h' = game_moves h)
     \<and> (\<forall>m. lvl m \<le> k \<longrightarrow> Move_Variants h' m = Move_Variants h m)"

text \<open>The conditions go over to a store with the same pointers outside \<^verbatim>\<open>prev\<close>.\<close>

definition shape_but :: "nat option \<Rightarrow> store \<Rightarrow> store \<Rightarrow> bool" where
  "shape_but prev h h' \<longleftrightarrow>
     (\<forall>m. Some m \<noteq> prev \<longrightarrow> Move_next h' m = Move_next h m)
     \<and> (prev \<noteq> None \<longrightarrow> game_moves h' = game_moves h)
     \<and> Variation_next h' = Variation_next h \<and> Variation_moves h' = Variation_moves h
     \<and> (\<forall>m. Move_Variants h' m = None \<or> Move_Variants h' m = Move_Variants h m)"











section \<open>Example data\<close>

text \<open>
  A criterion that asks for exactly seven black pawns and nothing else, with the default
  stability depth of two half-moves; a game in which Black has seven pawns after the third
  and fourth half-move only; and a game in which Black keeps seven pawns from the third
  half-move on.
\<close>

definition black_has_seven_pawns :: MaterialCriteria where
  "black_has_seven_pawns =
     \<lparr>both_colours = False,
      num_pieces = (\<lambda>c p. if c = BLACK \<and> p = PAWN then 7 else 0),
      occurs = (\<lambda>c p. if c = BLACK \<and> p = PAWN then EXACTLY else NUM_OR_MORE),
      num_minor_pieces = (\<lambda>c. 0),
      minor_occurs = (\<lambda>c. EXACTLY),
      move_depth = 2,
      match_depth = (\<lambda>c. 0)\<rparr>"

definition seven_black_pawns :: piece_counts where
  "seven_black_pawns = initial_num_pieces(BLACK := (initial_num_pieces BLACK)(PAWN := 7))"

definition ply :: "string \<Rightarrow> Piece \<Rightarrow> Move" where
  "ply text captured =
     \<lparr>move = text, captured_piece = captured, promoted_piece = EMPTY, comment_list = [],
      terminating_result = None, zobrist = 0\<rparr>"

definition empty_board :: Board where
  "empty_board = \<lparr>board = (\<lambda>r c. EMPTY), to_move = WHITE, move_number = 1,
     WKingCol = CHR ''e'', WKingRank = CHR ''1'', BKingCol = CHR ''e'', BKingRank = CHR ''8'',
     WKingCastle = CHR ''h'', WQueenCastle = CHR ''a'', BKingCastle = CHR ''h'', BQueenCastle = CHR ''a''\<rparr>"

definition short_lived_game :: Game where
  "short_lived_game =
     \<lparr>tags = (\<lambda>_. None), prefix_comment = [],
      moves = [ply ''e4'' EMPTY, ply ''d5'' EMPTY, ply ''exd5'' PAWN, ply ''c6'' EMPTY, ply ''dxc6'' PAWN],
      cumulative_hash_value = 0\<rparr>"

definition stable_game :: Game where
  "stable_game =
     \<lparr>tags = (\<lambda>_. None), prefix_comment = [],
      moves = [ply ''e4'' EMPTY, ply ''d5'' EMPTY, ply ''exd5'' PAWN, ply ''c6'' EMPTY, ply ''Nf3'' EMPTY],
      cumulative_hash_value = 0\<rparr>"

definition default_globals :: StateInfo where
  "default_globals =
     \<lparr>add_fen_castling = False, add_match_tag = False, match_permutations = False,
      max_line_length = 80, split_depth_limit = 0, line_number_marker = None,
      output_plycount = False, output_total_plycount = False, add_hashcode_tag_flag = False,
      keep_variations = True, split_variants_flag = False\<rparr>"

text \<open>
  A line length of 20, the calls that write the first moves of a game, and a word of a
  comment that is longer than the line.
\<close>

definition narrow_globals :: StateInfo where
  "narrow_globals = default_globals\<lparr>max_line_length := 20\<rparr>"

definition unwrapped_globals :: StateInfo where
  "unwrapped_globals = default_globals\<lparr>max_line_length := 0\<rparr>"

definition opening_calls :: "writer_call list" where
  "opening_calls =
     [Print_str ''1.'', Print_separator, Print_str ''e4'', Print_separator,
      Print_str ''e5'', Print_separator, Print_str ''2.'', Print_separator,
      Print_str ''Nf3'', Print_separator, Print_str ''Nc6'', Print_separator,
      Print_str ''3.'', Print_separator, Print_str ''Bb5'', Print_separator,
      Print_str ''a6'', Print_separator, Print_str ''*'', Terminate_line]"

definition long_token :: string where
  "long_token = ''https://example.org/games/0001''"

text \<open>
  A Chess960 start position,
  \<^verbatim>\<open>bnrqkrnb/pppppppp/8/8/8/8/PPPPPPPP/BNRQKRNB w KQkq - 0 1\<close>, and a game whose only
  tag is that FEN.
\<close>

definition chess960_fen :: string where
  "chess960_fen = ''bnrqkrnb/pppppppp/8/8/8/8/PPPPPPPP/BNRQKRNB w KQkq - 0 1''"

definition chess960_back_rank :: "Piece list" where
  "chess960_back_rank = [BISHOP, KNIGHT, ROOK, QUEEN, KING, ROOK, KNIGHT, BISHOP]"

definition chess960_board :: Board where
  "chess960_board =
     \<lparr>board = (\<lambda>r c. if c < 2 \<or> 9 < c \<or> r < 2 \<or> 9 < r then OFF
                     else if r = 2 then MAKE_COLOURED_PIECE WHITE (chess960_back_rank ! (c - 2))
                     else if r = 3 then MAKE_COLOURED_PIECE WHITE PAWN
                     else if r = 8 then MAKE_COLOURED_PIECE BLACK PAWN
                     else if r = 9 then MAKE_COLOURED_PIECE BLACK (chess960_back_rank ! (c - 2))
                     else EMPTY),
      to_move = WHITE, move_number = 1,
      WKingCol = CHR ''e'', WKingRank = CHR ''1'', BKingCol = CHR ''e'', BKingRank = CHR ''8'',
      WKingCastle = CHR ''f'', WQueenCastle = CHR ''c'',
      BKingCastle = CHR ''f'', BQueenCastle = CHR ''c''\<rparr>"

definition read_chess960_fen :: "string \<Rightarrow> Board option" where
  "read_chess960_fen fen = (if fen = chess960_fen then Some chess960_board else None)"

definition chess960_game :: Game where
  "chess960_game =
     \<lparr>tags = [FEN_TAG \<mapsto> chess960_fen], prefix_comment = [], moves = [],
      cumulative_hash_value = 0\<rparr>"

text \<open>
  The stored variation \<^verbatim>\<open>e4 c5 *\<close>, matched in any order; a Sicilian game, which it
  matches, and a copy of the Scandinavian game above with another hash value.
\<close>

definition permuting_globals :: StateInfo where
  "permuting_globals = default_globals\<lparr>match_permutations := True\<rparr>"

definition sicilian_variation :: variation_list where
  "sicilian_variation =
     \<lparr>variation_moves = [\<lparr>variant_text = ''e4'', matched = False\<rparr>,
                         \<lparr>variant_text = ''c5'', matched = False\<rparr>,
                         \<lparr>variant_text = ''*'', matched = False\<rparr>],
      num_white_any_moves = 1, num_black_any_moves = 0,
      num_white_disallowed_moves = 0, num_black_disallowed_moves = 0,
      variation_length = 3\<rparr>"

definition sicilian_game :: Game where
  "sicilian_game =
     \<lparr>tags = (\<lambda>_. None), prefix_comment = [],
      moves = [ply ''e4'' EMPTY, ply ''c5'' EMPTY, ply ''Nf3'' EMPTY, ply ''d6'' EMPTY],
      cumulative_hash_value = 0\<rparr>"

definition stable_game_again :: Game where
  "stable_game_again = stable_game\<lparr>cumulative_hash_value := 1\<rparr>"

text \<open>
  A game in store.  The main line is the moves 0, 1, 2.  Move 0 has the variation 3 (prefix
  comment 15, the move 7).  Move 1 has the variations 0 and 1: variation 0 has the prefix
  comment 10 (two cells, 10 and 11), the suffix comment 12 and the moves 3, 4, of which
  move 3 has the variation 2 (prefix comment 13, the move 5); variation 1 has the prefix
  comment 14 and the move 6.  Move 0 has the comment 16, the game the prefix comment 17.
  \<open>main_line_text\<close> writes a game as the letters of its moves, each followed by the digits
  of its comments in brackets.
\<close>

definition chain_of :: "nat option \<Rightarrow> nat list" where
  "chain_of p = (case p of None \<Rightarrow> [] | Some a \<Rightarrow> [a])"







definition final_board :: "store \<Rightarrow> bool" where
  "final_board h = True"



section \<open>Theorems\<close>

subsection \<open>The Result tag\<close>

text \<open>
  C8. A Result tag that is present, non-empty, not \<open>?\<close> and not the short form \<open>1/2\<close> is
  left unchanged by \<open>check_result\<close>, whatever the terminating result is (and so is every
  other tag).  The short form \<open>1/2\<close> is rewritten to \<open>1/2-1/2\<close>, with or without a
  terminating result, and nothing else changes then.  When the tag is absent, empty or \<open>?\<close>
  the terminating result, if there is one, is copied into the tag, and without one the tags
  stay as they are.  So whenever \<open>check_result\<close> does change the tags, either the tag was
  \<open>1/2\<close> and has become \<open>1/2-1/2\<close>, or the tag was absent, empty or \<open>?\<close> and has become a
  copy of the terminating result.
\<close>

theorem check_result_frame:
  "(Tags RESULT_TAG = Some v \<and> v \<noteq> [] \<and> v \<noteq> ''?'' \<and> v \<noteq> ''1/2''
      \<longrightarrow> check_result Tags tr = Tags)
   \<and> (Tags RESULT_TAG = Some ''1/2''
      \<longrightarrow> check_result Tags tr = Tags(RESULT_TAG \<mapsto> ''1/2-1/2''))
   \<and> (Tags RESULT_TAG = None \<or> Tags RESULT_TAG = Some [] \<or> Tags RESULT_TAG = Some ''?''
      \<longrightarrow> check_result Tags tr
          = (case tr of None \<Rightarrow> Tags | Some r \<Rightarrow> Tags(RESULT_TAG \<mapsto> r)))
   \<and> (check_result Tags tr \<noteq> Tags \<longrightarrow>
        (Tags RESULT_TAG = Some ''1/2'' \<and> check_result Tags tr = Tags(RESULT_TAG \<mapsto> ''1/2-1/2''))
        \<or> ((Tags RESULT_TAG = None \<or> Tags RESULT_TAG = Some [] \<or> Tags RESULT_TAG = Some ''?'')
            \<and> (\<exists>r. tr = Some r \<and> check_result Tags tr = Tags(RESULT_TAG \<mapsto> r))))"
proof (intro conjI)
  show "Tags RESULT_TAG = Some v \<and> v \<noteq> [] \<and> v \<noteq> ''?'' \<and> v \<noteq> ''1/2''
      \<longrightarrow> check_result Tags tr = Tags"
    by (auto simp: check_result_def Let_def split: option.splits)
  show "Tags RESULT_TAG = Some ''1/2''
      \<longrightarrow> check_result Tags tr = Tags(RESULT_TAG \<mapsto> ''1/2-1/2'')"
    by (auto simp: check_result_def Let_def split: option.splits)
  show "Tags RESULT_TAG = None \<or> Tags RESULT_TAG = Some [] \<or> Tags RESULT_TAG = Some ''?''
      \<longrightarrow> check_result Tags tr
          = (case tr of None \<Rightarrow> Tags | Some r \<Rightarrow> Tags(RESULT_TAG \<mapsto> r))"
    by (auto simp: check_result_def Let_def split: option.splits)
  show "check_result Tags tr \<noteq> Tags \<longrightarrow>
        (Tags RESULT_TAG = Some ''1/2'' \<and> check_result Tags tr = Tags(RESULT_TAG \<mapsto> ''1/2-1/2''))
        \<or> ((Tags RESULT_TAG = None \<or> Tags RESULT_TAG = Some [] \<or> Tags RESULT_TAG = Some ''?'')
            \<and> (\<exists>r. tr = Some r \<and> check_result Tags tr = Tags(RESULT_TAG \<mapsto> r)))"
    by (auto simp: check_result_def Let_def split: option.splits)
qed

theorem check_result_frame_witness:
  "check_result ((\<lambda>_. None)(RESULT_TAG \<mapsto> ''1-0'')) (Some ''0-1'') = (\<lambda>_. None)(RESULT_TAG \<mapsto> ''1-0'')
   \<and> check_result ((\<lambda>_. None)(RESULT_TAG \<mapsto> ''1/2'')) (Some ''0-1'')
       = (\<lambda>_. None)(RESULT_TAG \<mapsto> ''1/2-1/2'')
   \<and> check_result ((\<lambda>_. None)(RESULT_TAG \<mapsto> ''1/2'')) None
       = (\<lambda>_. None)(RESULT_TAG \<mapsto> ''1/2-1/2'')
   \<and> check_result ((\<lambda>_. None)(RESULT_TAG \<mapsto> ''?'')) (Some ''0-1'')
       = (\<lambda>_. None)(RESULT_TAG \<mapsto> ''0-1'')
   \<and> check_result (\<lambda>_. None) (Some ''0-1'') = (\<lambda>_. None)(RESULT_TAG \<mapsto> ''0-1'')
   \<and> check_result (\<lambda>_. None) None = (\<lambda>_. None)"
proof -
  note unchanged = check_result_frame [THEN conjunct1, rule_format]
  note short = check_result_frame [THEN conjunct2, THEN conjunct1, rule_format]
  note filled = check_result_frame [THEN conjunct2, THEN conjunct2, THEN conjunct1, rule_format]
  have a: "check_result ((\<lambda>_. None)(RESULT_TAG \<mapsto> ''1-0'')) (Some ''0-1'')
           = (\<lambda>_. None)(RESULT_TAG \<mapsto> ''1-0'')"
    by (rule unchanged [of _ "''1-0''"]) simp
  have b: "check_result ((\<lambda>_. None)(RESULT_TAG \<mapsto> ''1/2'')) (Some ''0-1'')
           = (\<lambda>_. None)(RESULT_TAG \<mapsto> ''1/2-1/2'')"
    using short [of "(\<lambda>_. None)(RESULT_TAG \<mapsto> ''1/2'')" "Some ''0-1''"] by simp
  have c: "check_result ((\<lambda>_. None)(RESULT_TAG \<mapsto> ''1/2'')) None
           = (\<lambda>_. None)(RESULT_TAG \<mapsto> ''1/2-1/2'')"
    using short [of "(\<lambda>_. None)(RESULT_TAG \<mapsto> ''1/2'')" None] by simp
  have d: "check_result ((\<lambda>_. None)(RESULT_TAG \<mapsto> ''?'')) (Some ''0-1'')
           = (\<lambda>_. None)(RESULT_TAG \<mapsto> ''0-1'')"
    using filled [of "(\<lambda>_. None)(RESULT_TAG \<mapsto> ''?'')" "Some ''0-1''"] by simp
  have e: "check_result (\<lambda>_. None) (Some ''0-1'') = (\<lambda>_. None)(RESULT_TAG \<mapsto> ''0-1'')"
    using filled [of "\<lambda>_. None" "Some ''0-1''"] by simp
  have f: "check_result (\<lambda>_. None) None = (\<lambda>_. None)"
    using filled [of "\<lambda>_. None" None] by simp
  show ?thesis using a b c d e f by (intro conjI)
qed

subsection \<open>The selection condition\<close>

lemma run_last: "run_in_order call [n] s = call n s"
  by (auto split: prod.splits bool.splits)

lemma dwg_run: "deal_with_game_wanted call s = run_in_order call conjunct_order s"
  unfolding deal_with_game_wanted_def conjunct_order_def
  by (simp add: and_also_def split: prod.splits bool.splits)

lemma run_traced:
  "run_in_order (traced accepts) ns tr =
     ((\<forall>n \<in> set ns. accepts n), tr @ evaluated accepts ns)"
  by (induction ns arbitrary: tr) (auto simp: traced_def)

text \<open>
  C1, as the code has it.  The condition of \<open>deal_with_game\<close> is the short-circuit
  conjunction of twelve calls, made in the order of \<open>conjunct_order\<close>: for whatever the
  calls do to the state, it is their left-to-right evaluation that stops at the first
  rejection; with the recording instance, the game is wanted if and only if every one of
  the twelve predicates accepts it, and the calls made are those up to and including the
  first rejection.  The twelve are the predicates of the spec's list, in the spec's
  relative order, without the stalemate-only, insufficient-material-only and N-move-rule
  predicates, which are not conjuncts of this condition.
\<close>

theorem deal_with_game_conjunction:
  "deal_with_game_wanted call s = run_in_order call conjunct_order s
   \<and> deal_with_game_wanted (traced accepts) [] =
       ((\<forall>n \<in> set conjunct_order. accepts n), evaluated accepts conjunct_order)
   \<and> conjunct_order =
       filter (\<lambda>n. n \<noteq> Stalemate_only \<and> n \<noteq> Insufficient_material_only \<and> n \<noteq> N_move_rule)
         spec_predicate_order"
  by (simp add: dwg_run run_traced) (simp add: conjunct_order_def spec_predicate_order_def)

theorem deal_with_game_conjunction_witness:
  "deal_with_game_wanted (traced (\<lambda>n. n \<noteq> Move_count_bounds)) [] =
     (False, [FEN_tag_consistency, Tag_roster_match, Setup_tag_policy, Duplicate_setup_suppression,
      Move_list_interpretation, Move_count_bounds])"
  using deal_with_game_conjunction [of "traced (\<lambda>n. n \<noteq> Move_count_bounds)" "[]"
      "\<lambda>n. n \<noteq> Move_count_bounds", THEN conjunct2, THEN conjunct1]
  by (simp add: conjunct_order_def)

text \<open>
  C1 as stated fails: when every predicate accepts, the calls made by the condition are
  not the fifteen predicates of the spec's list.
\<close>

theorem deal_with_game_order_counterexample:
  "fst (deal_with_game_wanted (traced (\<lambda>_. True)) [])
   \<and> snd (deal_with_game_wanted (traced (\<lambda>_. True)) []) \<noteq> spec_predicate_order"
  by (simp add: dwg_run run_traced) (simp add: conjunct_order_def spec_predicate_order_def)

subsection \<open>A game without a terminating result\<close>

lemma parse_result_None:
  "(\<forall>r. current_symbol p \<noteq> TERMINATING_RESULT r) \<Longrightarrow> parse_result p = (None, p)"
  by (auto simp: parse_result_def split: token.splits)

text \<open>
  C2, as the code has it.  When the move list is not empty and, after any hanging
  comment, the lookahead is not a terminating result, \<open>parse_game\<close> logs
  \<open>Missing result.\<close>, hands back no move list (\<^verbatim>\<open>*returned_move_list\<close> stays \<^verbatim>\<open>NULL\<close>)
  and leaves the tags as they were: the Result tag is neither consulted nor changed.
\<close>

theorem parse_game_missing_result:
  assumes "move_list \<noteq> []"
    and "parse_opt_comment_list p = (hanging_comment, p1)"
    and "\<forall>r. current_symbol p1 \<noteq> TERMINATING_RESULT r"
  shows "returned_move_list (parse_game Tags move_list p) = []
       \<and> header_Tags (parse_game Tags move_list p) = Tags
       \<and> logfile (parse_game Tags move_list p) = [''Missing result.'']"
  using assms by (simp add: parse_game_def parse_result_None Let_def)

theorem parse_game_missing_result_witness:
  "returned_move_list (parse_game (\<lambda>_. None) [ply ''e4'' EMPTY, ply ''e5'' EMPTY]
      \<lparr>current_symbol = COMMENT [''good''], pending = [EOF_TOKEN], RAV_level = 0\<rparr>) = []
   \<and> logfile (parse_game (\<lambda>_. None) [ply ''e4'' EMPTY, ply ''e5'' EMPTY]
      \<lparr>current_symbol = COMMENT [''good''], pending = [EOF_TOKEN], RAV_level = 0\<rparr>)
     = [''Missing result.'']"
proof -
  have 1: "[ply ''e4'' EMPTY, ply ''e5'' EMPTY] \<noteq> []" by simp
  have 2: "parse_opt_comment_list \<lparr>current_symbol = COMMENT [''good''], pending = [EOF_TOKEN], RAV_level = 0\<rparr>
           = ([[''good'']], \<lparr>current_symbol = EOF_TOKEN, pending = [], RAV_level = 0\<rparr>)"
    by (simp add: next_token_def)
  have 3: "\<forall>r. current_symbol \<lparr>current_symbol = EOF_TOKEN, pending = [], RAV_level = 0\<rparr>
              \<noteq> TERMINATING_RESULT r"
    by simp
  show ?thesis using parse_game_missing_result [OF 1 2 3, of "\<lambda>_. None"] by simp
qed

text \<open>
  C2 as stated fails: a game with the moves \<open>e4 e5\<close>, a Result tag \<open>1-0\<close> and no
  terminating result is not passed on with the tag standing in for the result; its move
  list is dropped.
\<close>

theorem parse_game_result_tag_counterexample:
  "returned_move_list (parse_game ((\<lambda>_. None)(RESULT_TAG \<mapsto> ''1-0''))
      [ply ''e4'' EMPTY, ply ''e5'' EMPTY]
      \<lparr>current_symbol = EOF_TOKEN, pending = [], RAV_level = 0\<rparr>) = []"
  by (simp add: parse_game_def parse_result_def)

subsection \<open>Stability of a material match\<close>

lemma piece_set_loop_depth [simp]:
  "piece_set_loop (d\<lparr>match_depth := x\<rparr>) np gc pc ps st = piece_set_loop d np gc pc ps st"
  by (induction d np gc pc ps st rule: piece_set_loop.induct) (auto simp: Let_def)

lemma piece_set_match_depth [simp]:
  "piece_set_match (d\<lparr>match_depth := x\<rparr>) np gc pc = piece_set_match d np gc pc"
  by (simp add: piece_set_match_def)

lemma constraints_hold_depth [simp]:
  "constraints_hold (d\<lparr>match_depth := x\<rparr>) np gc = constraints_hold d np gc"
  by (simp add: constraints_hold_def)

lemma material_match_fires:
  "fst (material_match d np gc) \<longleftrightarrow> constraints_hold d np gc \<and> move_depth d \<le> match_depth d gc"
  by (auto simp: material_match_def constraints_hold_def Let_def)

lemma material_match_step:
  "match_depth (snd (material_match d np gc)) gc =
     (if constraints_hold d np gc
      then (if match_depth d gc < move_depth d then match_depth d gc + 1 else match_depth d gc)
      else 0)"
  by (auto simp: material_match_def constraints_hold_def Let_def)

lemma material_match_frame:
  "\<exists>x. snd (material_match d np gc) = d\<lparr>match_depth := x\<rparr>"
  by (auto simp: material_match_def Let_def intro: exI [of _ "match_depth d"])

lemma run_frame: "\<exists>x. material_match_run d gc ps = d\<lparr>match_depth := x\<rparr>"
proof (induction ps rule: rev_induct)
  case Nil
  show ?case by (auto simp: material_match_run_def intro: exI [of _ "match_depth d"])
next
  case (snoc p ps)
  then obtain x where x: "material_match_run d gc ps = d\<lparr>match_depth := x\<rparr>" by blast
  obtain y where "snd (material_match (d\<lparr>match_depth := x\<rparr>) p gc) = d\<lparr>match_depth := x\<rparr>\<lparr>match_depth := y\<rparr>"
    using material_match_frame by blast
  with x show ?case by (auto simp: material_match_run_def)
qed

lemma run_depth:
  assumes "match_depth d gc = 0"
  shows "t \<le> match_depth (material_match_run d gc ps) gc \<longleftrightarrow>
         t \<le> move_depth d \<and> t \<le> length ps
         \<and> (\<forall>q \<in> set (drop (length ps - t) ps). constraints_hold d q gc)"
proof (induction ps arbitrary: t rule: rev_induct)
  case Nil
  show ?case using assms by (auto simp: material_match_run_def)
next
  case (snoc p ps)
  let ?d = "material_match_run d gc ps"
  obtain x where x: "?d = d\<lparr>match_depth := x\<rparr>" using run_frame by blast
  have md: "move_depth ?d = move_depth d" and ch: "constraints_hold ?d p gc = constraints_hold d p gc"
    using x by simp_all
  have le: "match_depth ?d gc \<le> move_depth d"
    using snoc [of "match_depth ?d gc"] by simp
  have run: "material_match_run d gc (ps @ [p]) = snd (material_match ?d p gc)"
    by (simp add: material_match_run_def)
  show ?case
  proof (cases t)
    case 0
    then show ?thesis by simp
  next
    case (Suc t')
    have "Suc t' \<le> match_depth (snd (material_match ?d p gc)) gc \<longleftrightarrow>
          constraints_hold d p gc \<and> t' \<le> match_depth ?d gc \<and> Suc t' \<le> move_depth d"
      using le by (auto simp: material_match_step ch md)
    also have "\<dots> \<longleftrightarrow> constraints_hold d p gc \<and> Suc t' \<le> move_depth d \<and> t' \<le> length ps
          \<and> (\<forall>q \<in> set (drop (length ps - t') ps). constraints_hold d q gc)"
      using snoc [of t'] by auto
    finally show ?thesis using Suc run by (auto simp: Suc_diff_le)
  qed
qed

text \<open>
  C3, as the code has it.  Let \<open>material_match\<close> be called for one colour on the
  positions \<open>ps\<close>, one after the other and starting with the counter of that colour at
  zero, and then on the position \<open>np\<close>.  That last call fires exactly when there are at
  least \<open>move_depth\<close> earlier positions and the constraints hold at \<open>np\<close> and at each of
  the \<open>move_depth\<close> positions just before it: \<open>move_depth + 1\<close> consecutive positions, the
  counter being reset by any failing one.  (With \<open>move_depth = 2\<close> a balance that holds at
  three consecutive positions matches, one that holds at one or two does not.)
\<close>

theorem material_match_stability:
  assumes "match_depth d gc = 0"
  shows "fst (material_match (material_match_run d gc ps) np gc) \<longleftrightarrow>
           move_depth d \<le> length ps
           \<and> constraints_hold d np gc
           \<and> (\<forall>q \<in> set (drop (length ps - move_depth d) ps). constraints_hold d q gc)"
proof -
  obtain x where x: "material_match_run d gc ps = d\<lparr>match_depth := x\<rparr>" using run_frame by blast
  have "fst (material_match (material_match_run d gc ps) np gc) \<longleftrightarrow>
        constraints_hold d np gc \<and> move_depth d \<le> match_depth (material_match_run d gc ps) gc"
    unfolding material_match_fires using x by simp
  then show ?thesis using run_depth [OF assms, of "move_depth d" ps] by auto
qed

theorem material_match_stability_witness:
  "match_depth black_has_seven_pawns WHITE = 0
   \<and> fst (material_match
           (material_match_run black_has_seven_pawns WHITE [seven_black_pawns, seven_black_pawns])
           seven_black_pawns WHITE)
   \<and> fst (check_for_material_match (\<lambda>_. empty_board) (\<lambda>m b. Some (m, b)) default_globals
           [black_has_seven_pawns] stable_game)"
proof -
  have 1: "match_depth black_has_seven_pawns WHITE = 0"
    by (simp add: black_has_seven_pawns_def)
  have 2: "constraints_hold black_has_seven_pawns seven_black_pawns WHITE"
    by code_simp
  have 3: "move_depth black_has_seven_pawns = 2"
    by (simp add: black_has_seven_pawns_def)
  have 4: "fst (check_for_material_match (\<lambda>_. empty_board) (\<lambda>m b. Some (m, b)) default_globals
           [black_has_seven_pawns] stable_game)"
    by code_simp
  show ?thesis
    using material_match_stability [OF 1, of "[seven_black_pawns, seven_black_pawns]" seven_black_pawns]
      1 2 3 4
    by simp
qed

text \<open>
  C3 as stated fails: with \<open>move_depth = 2\<close>, constraints that hold at two consecutive
  positions do not make the criterion fire, neither in \<open>material_match\<close> (called on the
  initial position and then on two positions with seven black pawns) nor for the game
  \<open>e4 d5 exd5 c6 dxc6\<close>, in which Black has seven pawns after the third and after the
  fourth half-move.
\<close>

theorem material_match_two_plies_counterexample:
  "move_depth black_has_seven_pawns = 2
   \<and> constraints_hold black_has_seven_pawns seven_black_pawns WHITE
   \<and> \<not> fst (material_match
             (material_match_run black_has_seven_pawns WHITE [initial_num_pieces, seven_black_pawns])
             seven_black_pawns WHITE)
   \<and> \<not> fst (check_for_material_match (\<lambda>_. empty_board) (\<lambda>m b. Some (m, b)) default_globals
             [black_has_seven_pawns] short_lived_game)"
  by code_simp

subsection \<open>Hash values as text\<close>

lemma digit_value_hex_digit: "d < 16 \<Longrightarrow> digit_value (hex_digit d) = Some d"
proof -
  assume "d < 16"
  then have "d = 0 \<or> d = 1 \<or> d = 2 \<or> d = 3 \<or> d = 4 \<or> d = 5 \<or> d = 6 \<or> d = 7 \<or> d = 8
      \<or> d = 9 \<or> d = 10 \<or> d = 11 \<or> d = 12 \<or> d = 13 \<or> d = 14 \<or> d = 15" by arith
  then show ?thesis
    by (elim disjE) (simp_all add: digit_value_def hex_digit_def)
qed

lemma hex_value_append:
  "hex_value acc (xs @ ys) = (case hex_value acc xs of None \<Rightarrow> None | Some a \<Rightarrow> hex_value a ys)"
  by (induction xs arbitrary: acc) (auto split: option.splits)

lemma hex_value_hex_digits: "hex_value acc (hex_digits n) = Some (acc * 16 ^ length (hex_digits n) + n)"
proof (induction n arbitrary: acc rule: hex_digits.induct)
  case (1 n)
  show ?case
  proof (cases "n < 16")
    case True
    then show ?thesis by (simp add: hex_digits.simps [of n] digit_value_hex_digit)
  next
    case False
    have m: "n mod 16 < 16" by simp
    have "16 * (n div 16) + n mod 16 = n" by simp
    with False 1 [OF False] m show ?thesis
      by (simp add: hex_digits.simps [of n] hex_value_append digit_value_hex_digit algebra_simps)
  qed
qed

lemma hex_value_zeros: "hex_value 0 (replicate k CHR ''0'' @ s) = hex_value 0 s"
  by (induction k) (auto simp: digit_value_def)

lemma hex_value_printf: "hex_value 0 (printf_0x w n) = Some n"
  by (simp add: printf_0x_def hex_value_zeros hex_value_hex_digits)

lemma length_hex_digits: "n < 16 ^ k \<Longrightarrow> 0 < k \<Longrightarrow> length (hex_digits n) \<le> k"
proof (induction n arbitrary: k rule: hex_digits.induct)
  case (1 n)
  show ?case
  proof (cases "n < 16")
    case True
    with 1 show ?thesis by (simp add: hex_digits.simps [of n])
  next
    case False
    obtain j where k: "k = Suc j" using 1(3) by (cases k) auto
    have j: "0 < j" using False 1(2) k by (cases j) auto
    have "n div 16 < 16 ^ j" using 1(2) k by (simp add: less_mult_imp_div_less mult.commute)
    from 1(1) [OF False this j] show ?thesis
      by (simp add: hex_digits.simps [of n] False k)
  qed
qed

lemma length_printf: "n < 16 ^ k \<Longrightarrow> 0 < k \<Longrightarrow> length (printf_0x k n) = k"
  using length_hex_digits [of n k] by (simp add: printf_0x_def)

lemma printf_0x_digits:
  assumes "n < 16 ^ k" "0 < k"
  shows "length (printf_0x k n) = k \<and> hex_value 0 (printf_0x k n) = Some n"
  using assms by (simp add: length_printf hex_value_printf)

text \<open>
  C5, as the code has it.  The HashCode tag is eight hexadecimal digits, most significant
  first, whose value is the cumulative hash modulo \<open>2 ^ 32\<close> (its low 32 bits); the hash
  printed after a move is sixteen hexadecimal digits, most significant first, whose value
  is the whole 64-bit hash of the position.
\<close>

theorem hash_values_as_text:
  "(\<exists>code. tags (add_hashcode_tag game) HASHCODE_TAG = Some code \<and> length code = 8
       \<and> hex_value 0 code = Some (unat (cumulative_hash_value game) mod 2 ^ 32))
   \<and> length (move_hashcode_text move_details) = 16
   \<and> hex_value 0 (move_hashcode_text move_details) = Some (unat (zobrist move_details))"
proof -
  have a: "unat (ucast (cumulative_hash_value game) :: 32 word)
           = unat (cumulative_hash_value game) mod 2 ^ 32"
    by (simp add: unsigned_ucast_eq take_bit_eq_mod)
  have b: "unat (cumulative_hash_value game) mod 2 ^ 32 < 16 ^ 8" by simp
  have c: "unat (zobrist move_details) < 16 ^ 16"
    using unsigned_less [of "zobrist move_details", where ?'a = nat] by simp
  show ?thesis
    using printf_0x_digits [OF b] printf_0x_digits [OF c]
    by (simp add: add_hashcode_tag_def move_hashcode_text_def a Let_def)
qed

text \<open>
  C5 as stated fails for the HashCode tag: for the cumulative hash \<open>2 ^ 32\<close> the tag is
  \<open>00000000\<close>, which is not that 64-bit value in hexadecimal.
\<close>

theorem hashcode_tag_counterexample:
  "tags (add_hashcode_tag \<lparr>tags = (\<lambda>_. None), prefix_comment = [], moves = [],
                            cumulative_hash_value = 0x100000000\<rparr>) HASHCODE_TAG
     = Some ''00000000''
   \<and> hex_value 0 ''00000000'' \<noteq> Some (unat (0x100000000 :: HashCode))"
proof -
  have low: "unat (ucast (0x100000000 :: HashCode) :: 32 word) = 0"
    by (simp add: unsigned_ucast_eq take_bit_eq_mod)
  have pad: "printf_0x 8 0 = ''00000000''"
    by code_simp
  have val: "hex_value 0 ''00000000'' = Some 0"
    by (simp add: digit_value_def)
  have a: "tags (add_hashcode_tag \<lparr>tags = (\<lambda>_. None), prefix_comment = [], moves = [],
                            cumulative_hash_value = 0x100000000\<rparr>) HASHCODE_TAG
     = Some ''00000000''"
    by (simp add: add_hashcode_tag_def low pad)
  have b: "hex_value 0 ''00000000'' \<noteq> Some (unat (0x100000000 :: HashCode))"
    unfolding val by simp
  show ?thesis using a b by blast
qed

subsection \<open>Chess960 detection\<close>

lemma chess960_files_False: "chess960_files b c False = False"
  by (simp add: chess960_files.simps)

lemma chess960_files_iff:
  "chess960_files b c True \<longleftrightarrow> (\<forall>c' \<in> {c .. ColConvert CHR ''h''}. file_ok b c')"
proof (induction "Suc (ColConvert CHR ''h'') - c" arbitrary: c)
  case 0
  then have "c > ColConvert CHR ''h''" by simp
  then show ?case by (simp add: chess960_files.simps [of b c])
next
  case (Suc n)
  then have le: "c \<le> ColConvert CHR ''h''" and n: "n = Suc (ColConvert CHR ''h'') - (c + 1)" by simp_all
  have split: "{c .. ColConvert CHR ''h''} = insert c {c + 1 .. ColConvert CHR ''h''}"
    using le by auto
  show ?case
  proof (cases "file_ok b c")
    case True
    then have "chess960_files b c True = chess960_files b (c + 1) True"
      using le by (subst chess960_files.simps) (simp add: file_ok_def Let_def)
    then show ?thesis using Suc(1) [OF n] True split by simp
  next
    case False
    then have "chess960_files b c True = chess960_files b (c + 1) False"
      using le by (subst chess960_files.simps) (auto simp: file_ok_def Let_def)
    then show ?thesis using False split by (simp add: chess960_files_False)
  qed
qed

lemma out_of_position:
  "(\<exists>c \<in> file_indices. board b (RankConvert CHR ''1'') c \<noteq> standard_back_rank c) \<longleftrightarrow>
     (board b (RankConvert CHR ''1'') (ColConvert CHR ''a'') \<noteq> W ROOK
      \<or> board b (RankConvert CHR ''1'') (ColConvert CHR ''b'') \<noteq> W KNIGHT
      \<or> board b (RankConvert CHR ''1'') (ColConvert CHR ''c'') \<noteq> W BISHOP
      \<or> board b (RankConvert CHR ''1'') (ColConvert CHR ''d'') \<noteq> W QUEEN
      \<or> board b (RankConvert CHR ''1'') (ColConvert CHR ''e'') \<noteq> W KING
      \<or> board b (RankConvert CHR ''1'') (ColConvert CHR ''f'') \<noteq> W BISHOP
      \<or> board b (RankConvert CHR ''1'') (ColConvert CHR ''g'') \<noteq> W KNIGHT
      \<or> board b (RankConvert CHR ''1'') (ColConvert CHR ''h'') \<noteq> W ROOK)"
proof -
  have fi: "file_indices = {2, 3, 4, 5, 6, 7, 8, 9}"
    by (auto simp: file_indices_def ColConvert_def)
  have sbr: "standard_back_rank 2 = W ROOK" "standard_back_rank 3 = W KNIGHT"
    "standard_back_rank 4 = W BISHOP" "standard_back_rank 5 = W QUEEN"
    "standard_back_rank 6 = W KING" "standard_back_rank 7 = W BISHOP"
    "standard_back_rank 8 = W KNIGHT" "standard_back_rank 9 = W ROOK"
    by (simp_all add: standard_back_rank_def ColConvert_def)
  have cols: "ColConvert CHR ''a'' = 2" "ColConvert CHR ''b'' = 3" "ColConvert CHR ''c'' = 4"
    "ColConvert CHR ''d'' = 5" "ColConvert CHR ''e'' = 6" "ColConvert CHR ''f'' = 7"
    "ColConvert CHR ''g'' = 8" "ColConvert CHR ''h'' = 9"
    by (simp_all add: ColConvert_def)
  show ?thesis
    unfolding fi cols by (simp add: sbr)
qed

lemma chess960_setup_iff: "chess960_setup b \<longleftrightarrow> chess960_conditions b"
proof -
  have ranks: "RankConvert CHR ''2'' - 1 = RankConvert CHR ''1''" "RankConvert CHR ''7'' + 1 = RankConvert CHR ''8''"
    by (simp_all add: RankConvert_def)
  have files: "chess960_files b (ColConvert CHR ''a'') True \<longleftrightarrow>
        (\<forall>c \<in> file_indices.
            board b (RankConvert CHR ''2'') c = MAKE_COLOURED_PIECE WHITE PAWN
            \<and> board b (RankConvert CHR ''7'') c = MAKE_COLOURED_PIECE BLACK PAWN)
     \<and> (\<forall>c \<in> file_indices.
            board b (RankConvert CHR ''1'') c \<noteq> EMPTY
            \<and> EXTRACT_PIECE (board b (RankConvert CHR ''1'') c)
              = EXTRACT_PIECE (board b (RankConvert CHR ''8'') c))"
    unfolding chess960_files_iff file_indices_def file_ok_def ranks by blast
  have "chess960_conditions b \<longleftrightarrow>
          move_number b = 1
        \<and> WKingRank b = CHR ''1'' \<and> BKingRank b = CHR ''8'' \<and> WKingCol b = BKingCol b
        \<and> WKingCastle b \<noteq> CHR 0x00 \<and> WQueenCastle b \<noteq> CHR 0x00
        \<and> BKingCastle b \<noteq> CHR 0x00 \<and> BQueenCastle b \<noteq> CHR 0x00
        \<and> chess960_files b (ColConvert CHR ''a'') True
        \<and> (\<exists>c \<in> file_indices. board b (RankConvert CHR ''1'') c \<noteq> standard_back_rank c)"
    unfolding chess960_conditions_def files by blast
  then show ?thesis
    unfolding chess960_setup_def Let_def out_of_position by auto
qed

text \<open>
  C6.  For a game with a FEN tag and no Variant tag, \<^verbatim>\<open>consistent_FEN_tags\<close> leaves the game
  with the Variant tag \<open>chess 960\<close> exactly when the FEN is read as a board that meets the
  conditions for a Chess960 start position (all four castling rights, both home ranks
  full of pawns, a full back rank with identical piece types opposite each other on every
  file, a back-rank piece out of its standard position, and also move number 1 and both
  kings on their own back rank on the same file); otherwise the game still has no Variant
  tag.  \<^verbatim>\<open>add_fen_castling\<close> is taken not to touch the Variant tag.
\<close>

theorem chess960_variant_tag:
  assumes "tags g FEN_TAG = Some fen" and "tags g VARIANT_TAG = None"
    and "\<And>g' b. tags (afc g' b) VARIANT_TAG = tags g' VARIANT_TAG"
  shows "tags (game_after (consistent_FEN_tags nfb afc globals g)) VARIANT_TAG =
           (if (\<exists>b. nfb fen = Some b \<and> chess960_conditions b) then Some ''chess 960'' else None)"
  using assms
  by (auto simp: consistent_FEN_tags_def Let_def chess960_setup_iff split: option.splits)

text \<open>The Chess960 start position with the bishops in the corners gets the tag.\<close>

lemma chess960_board_conditions: "chess960_conditions chess960_board"
  by code_simp

theorem chess960_variant_tag_witness:
  "tags (game_after (consistent_FEN_tags read_chess960_fen (\<lambda>g b. g) default_globals
                       chess960_game)) VARIANT_TAG
     = Some ''chess 960''"
proof -
  have fen: "tags chess960_game FEN_TAG = Some chess960_fen"
    and variant: "tags chess960_game VARIANT_TAG = None"
    by (simp_all add: chess960_game_def)
  have "\<exists>b. read_chess960_fen chess960_fen = Some b \<and> chess960_conditions b"
    using chess960_board_conditions by (simp add: read_chess960_fen_def)
  then show ?thesis
    using chess960_variant_tag [OF fen variant, of "\<lambda>g b. g" read_chess960_fen default_globals]
    by simp
qed

subsection \<open>Line wrapping\<close>

lemma lines_from_append_line:
  "newline \<notin> set l \<Longrightarrow> lines_from cur (l @ newline # rest) = (rev cur @ l) # lines_from [] rest"
  by (induction l arbitrary: cur) auto

lemma lines_from_concat:
  "\<forall>l \<in> set ls. newline \<notin> set l \<Longrightarrow>
     lines_from [] (concat (map (\<lambda>l. l @ [newline]) ls)) = ls"
  by (induction ls) (auto simp: lines_from_append_line)

lemma strip_props:
  "length (strip_trailing_spaces l) \<le> length l"
  "set (strip_trailing_spaces l) \<subseteq> set l"
  "strip_trailing_spaces l \<noteq> [] \<Longrightarrow> last (strip_trailing_spaces l) \<noteq> CHR '' ''"
proof -
  show "length (strip_trailing_spaces l) \<le> length l"
    using length_dropWhile_le [of "\<lambda>c. c = CHR '' ''" "rev l"] by (simp add: strip_trailing_spaces_def)
  show "set (strip_trailing_spaces l) \<subseteq> set l"
    using set_dropWhileD [of _ "\<lambda>c. c = CHR '' ''" "rev l"] by (auto simp: strip_trailing_spaces_def)
  show "strip_trailing_spaces l \<noteq> [] \<Longrightarrow> last (strip_trailing_spaces l) \<noteq> CHR '' ''"
    using hd_dropWhile [of "\<lambda>c. c = CHR '' ''" "rev l"]
    by (auto simp: strip_trailing_spaces_def last_rev)
qed

lemma wrapped_terminate:
  assumes "wrapped globals w" "max_line_length globals \<noteq> 0"
  shows "wrapped globals (terminate_line globals w) \<and> output_line (terminate_line globals w) = []"
proof (cases "strip_trailing_spaces (output_line w) = []")
  case True
  then show ?thesis using assms by (simp add: terminate_line_def wrapped_def)
next
  case False
  let ?l = "strip_trailing_spaces (output_line w)"
  from assms obtain ls where ls: "outputfile w = concat (map (\<lambda>l. l @ [newline]) ls)"
    "\<forall>l \<in> set ls. good_line (max_line_length globals) l"
    by (auto simp: wrapped_def)
  have "good_line (max_line_length globals) ?l"
    using False assms(1) strip_props [of "output_line w"]
    by (auto simp: good_line_def wrapped_def)
  then have "outputfile w @ ?l @ [newline] = concat (map (\<lambda>l. l @ [newline]) (ls @ [?l]))
     \<and> (\<forall>l \<in> set (ls @ [?l]). good_line (max_line_length globals) l)"
    using ls by simp
  then show ?thesis
    using False assms(2) unfolding terminate_line_def wrapped_def Let_def
    by (simp del: set_append map_append concat_append) blast
qed

lemma wrapped_check:
  assumes "wrapped globals w" "max_line_length globals \<noteq> 0"
  shows "wrapped globals (check_line_length globals w len)"
    and "len \<le> max_line_length globals \<Longrightarrow>
         length (output_line (check_line_length globals w len)) + len \<le> max_line_length globals"
    and "output_line (check_line_length globals w len) = output_line w
         \<or> output_line (check_line_length globals w len) = []"
  using assms wrapped_terminate [OF assms]
  by (auto simp: check_line_length_def line_length_def)

lemma wrapped_step:
  assumes "wrapped globals w" "max_line_length globals \<noteq> 0" "fits globals call"
  shows "wrapped globals (writer_step globals w call)"
proof (cases call)
  case (Print_str str)
  let ?w1 = "check_line_length globals w (length str)"
  have len: "length str \<le> max_line_length globals" and nl: "newline \<notin> set str"
    using assms(3) Print_str by simp_all
  have "wrapped globals ?w1" "length (output_line ?w1) + length str \<le> max_line_length globals"
    using wrapped_check [OF assms(1,2), of "length str"] len by simp_all
  then show ?thesis
    using Print_str assms(2) len nl by (simp add: print_str_def wrapped_def Let_def)
next
  case (Print_single_char ch)
  let ?w1 = "check_line_length globals w 1"
  have nl: "ch \<noteq> newline" using assms(3) Print_single_char by simp
  have "wrapped globals ?w1" "length (output_line ?w1) + 1 \<le> max_line_length globals"
    using wrapped_check [OF assms(1,2), of 1] assms(2) by simp_all
  then show ?thesis
    using Print_single_char assms(2) nl by (simp add: print_single_char_def wrapped_def Let_def)
next
  case Print_separator
  let ?w1 = "check_line_length globals w 2"
  have w1: "wrapped globals ?w1" using wrapped_check(1) [OF assms(1,2)] .
  have "length (output_line ?w1) + 1 \<le> max_line_length globals \<or> output_line ?w1 = []"
  proof (cases "2 \<le> max_line_length globals")
    case True
    then show ?thesis using wrapped_check(2) [OF assms(1,2), of 2] by simp
  next
    case False
    then have "line_length w + 2 > max_line_length globals" by simp
    then have "?w1 = terminate_line globals w"
      using assms(2) by (simp add: check_line_length_def)
    then show ?thesis using wrapped_terminate [OF assms(1,2)] by simp
  qed
  then show ?thesis
    using Print_separator assms(2) w1
    by (auto simp: print_separator_def wrapped_def Let_def line_length_def newline_def)
next
  case Terminate_line
  then show ?thesis using wrapped_terminate [OF assms(1,2)] by simp
qed

lemma wrapped_run:
  assumes "max_line_length globals \<noteq> 0" "\<forall>call \<in> set calls. fits globals call" "wrapped globals w"
  shows "wrapped globals (writer_run globals w calls)"
  using assms(2,3)
proof (induction calls arbitrary: w)
  case Nil
  then show ?case by (simp add: writer_run_def)
next
  case (Cons call calls)
  then show ?case
    using wrapped_step [OF Cons.prems(2) assms(1), of call]
    by (simp add: writer_run_def)
qed

lemma unwrapped_step:
  "max_line_length globals = 0 \<Longrightarrow>
   writer_step globals w call = w\<lparr>outputfile := outputfile w @ call_text call\<rparr>"
  by (cases call)
     (simp_all add: print_str_def print_single_char_def print_separator_def terminate_line_def)

lemma unwrapped_run:
  "max_line_length globals = 0 \<Longrightarrow>
   writer_run globals w calls = w\<lparr>outputfile := outputfile w @ concat (map call_text calls)\<rparr>"
  by (induction calls arbitrary: w) (simp_all add: writer_run_def unwrapped_step)

text \<open>
  C4, as the code has it.  When \<^verbatim>\<open>max_line_length\<close> is not 0 and every string passed to
  the writer holds no newline and is no longer than \<^verbatim>\<open>max_line_length\<close>, every line written
  is at most \<^verbatim>\<open>max_line_length\<close> characters long, is not empty and does not end in a space.
  A string longer than \<^verbatim>\<open>max_line_length\<close> is written unbroken on a line of its own, after
  the line under construction.  When \<^verbatim>\<open>max_line_length\<close> is 0 the text of every call goes
  to the file as it is.
\<close>

theorem line_wrapping:
  "(max_line_length globals \<noteq> 0 \<and> (\<forall>call \<in> set calls. fits globals call) \<longrightarrow>
      (\<forall>l \<in> set (emitted_lines (outputfile (writer_run globals start_of_file calls))).
          length l \<le> max_line_length globals \<and> l \<noteq> [] \<and> last l \<noteq> CHR '' ''))
   \<and> (max_line_length globals \<noteq> 0 \<and> length str > max_line_length globals \<longrightarrow>
        outputfile (print_str globals w str)
          = outputfile (terminate_line globals w) @ str @ [newline])
   \<and> (max_line_length globals = 0 \<longrightarrow>
        writer_run globals w calls = w\<lparr>outputfile := outputfile w @ concat (map call_text calls)\<rparr>)"
proof (intro conjI impI)
  assume a: "max_line_length globals \<noteq> 0 \<and> (\<forall>call \<in> set calls. fits globals call)"
  have "wrapped globals start_of_file"
    by (auto simp: wrapped_def start_of_file_def intro: exI [of _ "[]"])
  then have "wrapped globals (writer_run globals start_of_file calls)"
    using a wrapped_run by blast
  then obtain ls where ls: "outputfile (writer_run globals start_of_file calls)
        = concat (map (\<lambda>l. l @ [newline]) ls)"
      "\<forall>l \<in> set ls. good_line (max_line_length globals) l"
    by (auto simp: wrapped_def)
  then have "emitted_lines (outputfile (writer_run globals start_of_file calls)) = ls"
    by (simp add: emitted_lines_def lines_from_concat good_line_def)
  then show "\<forall>l \<in> set (emitted_lines (outputfile (writer_run globals start_of_file calls))).
          length l \<le> max_line_length globals \<and> l \<noteq> [] \<and> last l \<noteq> CHR '' ''"
    using ls(2) by (simp add: good_line_def)
next
  assume "max_line_length globals \<noteq> 0 \<and> length str > max_line_length globals"
  then show "outputfile (print_str globals w str)
          = outputfile (terminate_line globals w) @ str @ [newline]"
    by (simp add: print_str_def check_line_length_def Let_def)
next
  assume "max_line_length globals = 0"
  then show "writer_run globals w calls = w\<lparr>outputfile := outputfile w @ concat (map call_text calls)\<rparr>"
    by (rule unwrapped_run)
qed

text \<open>
  The first moves of a game at a line length of 20 are written on two lines, a long word
  alone is written as it is, and all is on one line when wrapping is off.
\<close>

theorem line_wrapping_witness:
  "list_all (\<lambda>l. length l \<le> 20 \<and> l \<noteq> [] \<and> last l \<noteq> CHR '' '')
     (emitted_lines (outputfile (writer_run narrow_globals start_of_file opening_calls)))
   \<and> emitted_lines (outputfile (writer_run narrow_globals start_of_file opening_calls))
       = [''1. e4 e5 2. Nf3 Nc6'', ''3. Bb5 a6 *'']
   \<and> outputfile (print_str narrow_globals start_of_file long_token) = long_token @ [newline]
   \<and> outputfile (writer_run unwrapped_globals start_of_file opening_calls)
       = ''1. e4 e5 2. Nf3 Nc6 3. Bb5 a6 *'' @ [newline]"
proof -
  have limit: "max_line_length narrow_globals = 20" "max_line_length unwrapped_globals = 0"
    by (simp_all add: narrow_globals_def unwrapped_globals_def)
  have fit: "\<forall>call \<in> set opening_calls. fits narrow_globals call"
    by (simp add: opening_calls_def limit newline_def)
  have long: "length long_token > max_line_length narrow_globals"
    by (simp add: long_token_def limit)
  note w1 = line_wrapping [of narrow_globals opening_calls long_token start_of_file]
  note w2 = line_wrapping [of unwrapped_globals opening_calls long_token start_of_file]
  have a: "list_all (\<lambda>l. length l \<le> 20 \<and> l \<noteq> [] \<and> last l \<noteq> CHR '' '')
     (emitted_lines (outputfile (writer_run narrow_globals start_of_file opening_calls)))"
    using w1 fit limit by (simp add: list_all_iff)
  have b: "emitted_lines (outputfile (writer_run narrow_globals start_of_file opening_calls))
       = [''1. e4 e5 2. Nf3 Nc6'', ''3. Bb5 a6 *'']"
    by code_simp
  have c: "outputfile (print_str narrow_globals start_of_file long_token) = long_token @ [newline]"
  proof -
    have "outputfile (terminate_line narrow_globals start_of_file) = []"
      by (simp add: terminate_line_def start_of_file_def strip_trailing_spaces_def limit)
    then show ?thesis using w1 long limit by simp
  qed
  have d: "outputfile (writer_run unwrapped_globals start_of_file opening_calls)
       = ''1. e4 e5 2. Nf3 Nc6 3. Bb5 a6 *'' @ [newline]"
    using w2 limit by (simp add: start_of_file_def opening_calls_def)
  show ?thesis using a b c d by blast
qed

text \<open>
  C4 as stated fails: at a line length of 20 a word of 30 characters is written on a line
  of 30 characters.
\<close>

theorem line_wrapping_long_token_counterexample:
  "max_line_length narrow_globals = 20
   \<and> emitted_lines (outputfile (writer_run narrow_globals start_of_file
         [Print_str ''1.'', Print_separator, Print_str long_token, Terminate_line]))
       = [''1.'', long_token]
   \<and> length long_token = 30"
proof -
  have a: "max_line_length narrow_globals = 20"
    by (simp add: narrow_globals_def)
  have b: "emitted_lines (outputfile (writer_run narrow_globals start_of_file
         [Print_str ''1.'', Print_separator, Print_str long_token, Terminate_line]))
       = [''1.'', long_token]"
    by code_simp
  have c: "length long_token = 30"
    by (simp add: long_token_def)
  show ?thesis using a b c by blast
qed

subsection \<open>Game number lists\<close>

lemma strtok_fields_token:
  "delim \<notin> set t \<Longrightarrow> strtok_fields delim cur (t @ rest) = strtok_fields delim (rev t @ cur) rest"
  by (induction t arbitrary: cur) auto

lemma strtok_all_join:
  "\<forall>t \<in> set ts. t \<noteq> [] \<and> CHR '','' \<notin> set t \<Longrightarrow>
     strtok_all CHR '','' (join_with_commas ts) = ts"
proof (induction ts rule: join_with_commas.induct)
  case 1
  show ?case by (simp add: strtok_all_def)
next
  case (2 t)
  then show ?case
    using strtok_fields_token [of "CHR '',''" t "[]" "[]"] by (simp add: strtok_all_def)
next
  case (3 t u ts)
  then have "strtok_all CHR '','' (join_with_commas (u # ts)) = u # ts" by simp
  moreover have "strtok_fields CHR '','' [] (t @ CHR '','' # join_with_commas (u # ts))
        = strtok_fields CHR '','' (rev t) (CHR '','' # join_with_commas (u # ts))"
    using 3(2) strtok_fields_token [of "CHR '',''" t "[]"] by simp
  ultimately show ?case using 3(2) by (simp add: strtok_all_def)
qed

lemma scan_digits_numeral:
  "list_all isdigit ds \<Longrightarrow> no_digit_ahead rest \<Longrightarrow>
     scan_digits acc (ds @ rest) = (foldl (\<lambda>acc c. 10 * acc + digit_of c) acc ds, rest)"
proof (induction ds arbitrary: acc)
  case Nil
  then show ?case by (cases rest) (simp_all add: no_digit_ahead_def)
next
  case (Cons d ds)
  then show ?case by simp
qed

lemma isdigit_not_special:
  "isdigit c \<Longrightarrow> \<not> isspace c \<and> c \<noteq> CHR ''-'' \<and> c \<noteq> CHR ''+'' \<and> c \<noteq> CHR '':'' \<and> c \<noteq> CHR '',''"
  by (auto simp: isdigit_def isspace_def)

lemma scan_lu_numeral:
  assumes "numeral_ok ds" "no_digit_ahead rest"
  shows "scan_lu (ds @ rest) = Some (unsigned_long_value ds, rest)"
proof -
  obtain d ds' where ds: "ds = d # ds'" using assms(1) by (cases ds) (auto simp: numeral_ok_def)
  have d: "isdigit d" and all: "list_all isdigit ds"
    using assms(1) ds by (auto simp: numeral_ok_def)
  have drop: "dropWhile isspace (ds @ rest) = ds @ rest"
    using d isdigit_not_special [of d] by (simp add: ds)
  have scan: "scan_digits 0 (ds @ rest) = (decimal_value ds, rest)"
    using scan_digits_numeral [OF all assms(2)] by (simp add: decimal_value_def)
  show ?thesis
    unfolding scan_lu_def drop Let_def
    using d isdigit_not_special [of d] scan
    by (simp add: ds unsigned_long_value_def min_def)
qed

lemma sscanf_lu_numeral:
  "numeral_ok n \<Longrightarrow> sscanf_lu n = Some (unsigned_long_value n)"
  using scan_lu_numeral [of n "[]"] by (simp add: sscanf_lu_def no_digit_ahead_def)

lemma sscanf_lu_colon_lu_span:
  assumes "numeral_ok n" "numeral_ok m"
  shows "sscanf_lu_colon_lu (n @ CHR '':'' # m)
         = Some (unsigned_long_value n, unsigned_long_value m)"
proof -
  have 1: "scan_lu (n @ CHR '':'' # m) = Some (unsigned_long_value n, CHR '':'' # m)"
    using scan_lu_numeral [OF assms(1), of "CHR '':'' # m"]
    by (simp add: no_digit_ahead_def isdigit_def)
  have 2: "scan_lu m = Some (unsigned_long_value m, [])"
    using scan_lu_numeral [OF assms(2), of "[]"] by (simp add: no_digit_ahead_def)
  show ?thesis by (simp add: sscanf_lu_colon_lu_def 1 2)
qed

lemma numeral_chars:
  "numeral_ok n \<Longrightarrow> n \<noteq> [] \<and> CHR '':'' \<notin> set n \<and> CHR '','' \<notin> set n"
  using isdigit_not_special by (auto simp: numeral_ok_def list_all_iff)

lemma range_token_chars:
  "range_ok r \<Longrightarrow> range_token r \<noteq> [] \<and> CHR '','' \<notin> set (range_token r)"
  using numeral_chars by (cases r) auto

lemma game_number_loop_ranges:
  "\<forall>r \<in> set rs. range_ok r \<Longrightarrow>
     fst (game_number_loop (map range_token rs) last_number head)
       = ascending last_number (map range_bounds rs)
     \<and> (ascending last_number (map range_bounds rs) \<longrightarrow>
          snd (game_number_loop (map range_token rs) last_number head)
            = head @ map range_bounds rs)"
proof (induction rs arbitrary: last_number head)
  case Nil
  show ?case by simp
next
  case (Cons r rs)
  show ?case
  proof (cases r)
    case (Single n)
    then have n: "numeral_ok n" using Cons.prems by simp
    have "CHR '':'' \<notin> set n" using numeral_chars [OF n] by simp
    then show ?thesis
      using Cons.IH [of "unsigned_long_value n"
                        "head @ [(unsigned_long_value n, unsigned_long_value n)]"] Cons.prems
      by (auto simp: Single sscanf_lu_numeral [OF n])
  next
    case (Span n m)
    then have nm: "numeral_ok n" "numeral_ok m" using Cons.prems by simp_all
    show ?thesis
      using Cons.IH [of "unsigned_long_value m"
                        "head @ [(unsigned_long_value n, unsigned_long_value m)]"] Cons.prems
      by (auto simp: Span sscanf_lu_colon_lu_span [OF nm])
  qed
qed

text \<open>
  C7, as the code has it.  Take an argument that is a sequence of ranges, each \<open>N\<close> or \<open>N:M\<close>
  in decimal digits, joined by commas, every number read as an \<^verbatim>\<open>unsigned long\<close> (so a number
  beyond \<^verbatim>\<open>ULONG_MAX\<close> counts as \<^verbatim>\<open>ULONG_MAX\<close>).  When every range has \<open>N \<le> M\<close>, the first \<open>N\<close>
  is greater than 0 and every later \<open>N\<close> is greater than the \<open>M\<close> of the range before it,
  \<^verbatim>\<open>extract_game_number_list\<close> returns the list of the ranges and logs nothing.  When some
  range breaks these conditions it returns \<^verbatim>\<open>NULL\<close> and the log holds the one line
  \<^verbatim>\<open>Numbers in ... must be in the format N or N:N and in ascending order.\<close>  So the list is
  not \<^verbatim>\<open>NULL\<close> exactly when there is at least one range and the conditions hold, and the
  program exits with code 1 in every other case: after the message when a range is
  refused, and with no message when the argument holds no range at all.
\<close>

theorem extract_game_number_list_ranges:
  assumes "\<forall>r \<in> set rs. range_ok r"
  shows "extract_game_number_list (join_with_commas (map range_token rs)) =
           (if ascending 0 (map range_bounds rs) then (map range_bounds rs, [])
            else ([], [number_list_message (join_with_commas (map range_token rs))]))
       \<and> (fst (extract_game_number_list (join_with_commas (map range_token rs))) \<noteq> [] \<longleftrightarrow>
           rs \<noteq> [] \<and> ascending 0 (map range_bounds rs))
       \<and> process_long_form_argument_number_list (join_with_commas (map range_token rs)) =
           (if rs \<noteq> [] \<and> ascending 0 (map range_bounds rs)
            then Game_numbers (map range_bounds rs) else Exit 1)
       \<and> (rs = [] \<longrightarrow>
            extract_game_number_list (join_with_commas (map range_token rs)) = ([], []))"
proof -
  have tok: "strtok_all CHR '','' (join_with_commas (map range_token rs)) = map range_token rs"
    using assms range_token_chars by (intro strtok_all_join) auto
  have 1: "extract_game_number_list (join_with_commas (map range_token rs)) =
           (if ascending 0 (map range_bounds rs) then (map range_bounds rs, [])
            else ([], [number_list_message (join_with_commas (map range_token rs))]))"
    unfolding extract_game_number_list_def tok number_list_message_def
    using game_number_loop_ranges [OF assms, of 0 "[]"]
    by (auto simp: Let_def split: prod.splits)
  have 2: "fst (extract_game_number_list (join_with_commas (map range_token rs))) \<noteq> [] \<longleftrightarrow>
           rs \<noteq> [] \<and> ascending 0 (map range_bounds rs)"
    unfolding 1 by auto
  have 3: "process_long_form_argument_number_list (join_with_commas (map range_token rs)) =
           (if rs \<noteq> [] \<and> ascending 0 (map range_bounds rs)
            then Game_numbers (map range_bounds rs) else Exit 1)"
    unfolding process_long_form_argument_number_list_def Let_def 2 by (simp add: 1)
  have 4: "rs = [] \<longrightarrow>
            extract_game_number_list (join_with_commas (map range_token rs)) = ([], [])"
    unfolding 1 by simp
  show ?thesis
    by (intro conjI) (rule 1, rule 2, rule 3, rule 4)
qed

text \<open>
  The argument \<^verbatim>\<open>1,3:5,9\<close> gives three ranges; \<^verbatim>\<open>3,2\<close> is refused with the message; the
  empty argument is refused without one; a number of twenty digits is read as \<^verbatim>\<open>ULONG_MAX\<close>.
\<close>

lemmas number_defs = numeral_ok_def decimal_value_def unsigned_long_value_def isdigit_def
  digit_of_def ULONG_MAX_def

theorem extract_game_number_list_ranges_witness:
  "extract_game_number_list ''1,3:5,9'' = ([(1, 1), (3, 5), (9, 9)], [])
   \<and> process_long_form_argument_number_list ''1,3:5,9''
       = Game_numbers [(1, 1), (3, 5), (9, 9)]
   \<and> extract_game_number_list ''3,2''
       = ([], [''Numbers in 3,2 must be in the format N or N:N and in ascending order.''])
   \<and> process_long_form_argument_number_list ''3,2'' = Exit 1
   \<and> extract_game_number_list [] = ([], [])
   \<and> process_long_form_argument_number_list [] = Exit 1
   \<and> extract_game_number_list ''7:99999999999999999999'' = ([(7, 18446744073709551615)], [])"
proof -
  have ok: "\<forall>r \<in> set [Single ''1'', Span ''3'' ''5'', Single ''9'']. range_ok r"
    "\<forall>r \<in> set [Single ''3'', Single ''2'']. range_ok r"
    "\<forall>r \<in> set ([] :: range_text list). range_ok r"
    "\<forall>r \<in> set [Span ''7'' ''99999999999999999999'']. range_ok r"
    by (simp_all add: number_defs)
  have a: "extract_game_number_list ''1,3:5,9'' = ([(1, 1), (3, 5), (9, 9)], [])
      \<and> process_long_form_argument_number_list ''1,3:5,9''
          = Game_numbers [(1, 1), (3, 5), (9, 9)]"
    using extract_game_number_list_ranges [OF ok(1)]
    by (simp add: decimal_value_def unsigned_long_value_def digit_of_def ULONG_MAX_def)
  have b: "extract_game_number_list ''3,2''
       = ([], [''Numbers in 3,2 must be in the format N or N:N and in ascending order.''])
      \<and> process_long_form_argument_number_list ''3,2'' = Exit 1"
    using extract_game_number_list_ranges [OF ok(2)]
    by (simp add: decimal_value_def unsigned_long_value_def digit_of_def ULONG_MAX_def
        number_list_message_def)
  have c: "extract_game_number_list [] = ([], [])
      \<and> process_long_form_argument_number_list [] = Exit 1"
    using extract_game_number_list_ranges [OF ok(3)] by simp
  have d: "extract_game_number_list ''7:99999999999999999999'' = ([(7, 18446744073709551615)], [])"
    using extract_game_number_list_ranges [OF ok(4)]
    by (simp add: decimal_value_def unsigned_long_value_def digit_of_def ULONG_MAX_def)
  show ?thesis using a b c d by simp
qed

text \<open>
  Outside the documented form the function goes by what \<^verbatim>\<open>sscanf\<close> accepts: text after a
  number is ignored, as are empty fields, leading white space and signs.
\<close>

lemmas eval_defs = extract_game_number_list_def strtok_all_def sscanf_lu_def sscanf_lu_colon_lu_def
  scan_lu_def isspace_def isdigit_def digit_of_def ULONG_MAX_def Let_def

lemma extract_game_number_list_lenient:
  "fst (extract_game_number_list ''5abc'') = [(5, 5)]"
  "fst (extract_game_number_list ''1:2:3,,7'') = [(1, 2), (7, 7)]"
  "fst (extract_game_number_list '' 3,+4'') = [(3, 3), (4, 4)]"
  "fst (extract_game_number_list []) = []"
  by (simp_all add: eval_defs)

text \<open>
  C7 as stated fails: \<^verbatim>\<open>0\<close> is a range with nothing before it, and is refused.
\<close>

theorem game_number_zero_counterexample:
  "extract_game_number_list ''0''
     = ([], [''Numbers in 0 must be in the format N or N:N and in ascending order.''])
   \<and> process_long_form_argument_number_list ''0'' = Exit 1"
  by (simp add: eval_defs process_long_form_argument_number_list_def)

subsection \<open>Textual variations\<close>

lemma straight_loop_texts:
  "map move ms = map move ms' \<Longrightarrow> straight_loop v i ms = straight_loop v i ms'"
proof (induction ms arbitrary: ms' i)
  case Nil
  then show ?case by simp
next
  case (Cons m ms)
  then obtain m' ms'' where ms': "ms' = m' # ms''" and m: "move m = move m'"
    and rest: "map move ms = map move ms''" by (cases ms') auto
  show ?case
    unfolding ms' using Cons.IH [OF rest] m
    by (simp add: Let_def split: option.splits)
qed

lemma straight_loop_forget:
  "well_formed v \<Longrightarrow> straight_loop (forget_matched v) i ms = straight_loop v i ms"
proof (induction ms arbitrary: i)
  case Nil
  show ?case by simp
next
  case (Cons m ms)
  have len: "variation_length (forget_matched v) = variation_length v"
    by (simp add: forget_matched_def)
  have same_text: "i < variation_length v \<Longrightarrow>
      variant_text (variation_moves (forget_matched v) ! i) = variant_text (variation_moves v ! i)"
    using Cons.prems by (simp add: forget_matched_def well_formed_def)
  show ?case
    using Cons.IH [OF Cons.prems] same_text
    by (simp add: len Let_def split: option.splits)
qed

lemma straight_match_stable:
  "well_formed v \<Longrightarrow> map move ms = map move ms' \<Longrightarrow>
     straight_match ms' (forget_matched v) = straight_match ms v"
  using straight_loop_texts [of ms ms' v 0] straight_loop_forget [of v 0 ms']
  by (simp add: straight_match_def forget_matched_def split: option.splits)

lemma stage_one_texts:
  "map move ms = map move ms' \<Longrightarrow> stage_one vs len t w ms = stage_one vs len t w ms'"
proof (induction ms arbitrary: ms' t w)
  case Nil
  then show ?case by simp
next
  case (Cons m ms)
  then obtain m' ms'' where ms': "ms' = m' # ms''" and m: "move m = move m'"
    and rest: "map move ms = map move ms''" by (cases ms') auto
  show ?case
    unfolding ms' using Cons.IH [OF rest] m
    by (simp split: option.splits bool.splits)
qed

lemma stage_two_texts:
  "map move ms = map move ms' \<Longrightarrow>
     stage_two vs len wa ba k w ms = stage_two vs len wa ba k w ms'"
proof (induction ms arbitrary: ms' vs wa ba k w)
  case Nil
  then show ?case by simp
next
  case (Cons m ms)
  then obtain m' ms'' where ms': "ms' = m' # ms''" and m: "move m = move m'"
    and rest: "map move ms = map move ms''" by (cases ms') auto
  show ?case
    unfolding ms' stage_two.simps m Cons.IH [OF rest] ..
qed

lemma permutation_match_texts:
  "map move ms = map move ms' \<Longrightarrow> permutation_match ms v = permutation_match ms' v"
proof -
  assume eq: "map move ms = map move ms'"
  have a: "stage_one vs len t w ms = stage_one vs len t w ms'" for vs len t w
    using stage_one_texts [OF eq] .
  have b: "stage_two vs len wa ba k w ms = stage_two vs len wa ba k w ms'" for vs len wa ba k w
    using stage_two_texts [OF eq] .
  show ?thesis unfolding permutation_match_def a b ..
qed

lemma clear_matched_forget:
  "well_formed v \<Longrightarrow>
     clear_matched (variation_length v) (variation_moves (forget_matched v))
       = clear_matched (variation_length v) (variation_moves v)"
  by (simp add: clear_matched_def forget_matched_def well_formed_def comp_def)

lemma permutation_match_forget:
  "well_formed v \<Longrightarrow> permutation_match ms (forget_matched v) = permutation_match ms v"
proof -
  assume wf: "well_formed v"
  have fields: "variation_length (forget_matched v) = variation_length v"
    "num_white_disallowed_moves (forget_matched v) = num_white_disallowed_moves v"
    "num_black_disallowed_moves (forget_matched v) = num_black_disallowed_moves v"
    "num_white_any_moves (forget_matched v) = num_white_any_moves v"
    "num_black_any_moves (forget_matched v) = num_black_any_moves v"
    by (simp_all add: forget_matched_def)
  show ?thesis
    unfolding permutation_match_def Let_def fields clear_matched_forget [OF wf] ..
qed

lemma stage_two_frame:
  "stage_two vs len wa ba k w ms = Some (r, k', vs') \<Longrightarrow>
     map variant_text vs' = map variant_text vs"
proof (induction ms arbitrary: vs wa ba k w)
  case Nil
  then show ?case by simp
next
  case (Cons m ms)
  show ?case
  proof (cases "k < len")
    case False
    then show ?thesis using Cons.prems by simp
  next
    case True
    show ?thesis
    proof (cases "find_unmatched vs len (if w then 0 else 1) (move m)")
      case None
      then show ?thesis using Cons.prems True by simp
    next
      case (Some found)
      show ?thesis
      proof (cases found)
        case None
        then show ?thesis
          using Cons.prems True Some Cons.IH by (auto split: if_splits)
      next
        case (Some i)
        have "map variant_text (vs[i := (vs ! i)\<lparr>matched := True\<rparr>]) = map variant_text vs"
          by (cases "i < length vs") (simp_all add: map_update list_update_same_conv list_update_beyond)
        then show ?thesis
          using Cons.prems True \<open>find_unmatched vs len (if w then 0 else 1) (move m) = Some found\<close>
            Some Cons.IH [of "vs[i := (vs ! i)\<lparr>matched := True\<rparr>]"]
          by auto
      qed
    qed
  qed
qed

lemma permutation_match_frame:
  assumes "permutation_match ms v = Some (wanted, out)"
  shows "map variant_text out = map variant_text (variation_moves v)"
proof -
  have clear: "map variant_text (clear_matched n xs) = map variant_text xs" for n xs
  proof -
    have "map variant_text (take n xs) @ map variant_text (drop n xs) = map variant_text xs"
      by (metis append_take_drop_id map_append)
    then show ?thesis by (simp add: clear_matched_def comp_def)
  qed
  have conv: "map variant_text (disallowed_become_any n xs) = map variant_text xs" for n xs
  proof -
    have c: "variant_text \<circ> (\<lambda>m. if first_char (variant_text m) = DISALLOWED_MOVE
              then m\<lparr>matched := True\<rparr> else m) = variant_text"
      by (auto simp: fun_eq_iff)
    have t: "map variant_text (take n xs) @ map variant_text (drop n xs) = map variant_text xs"
      by (metis append_take_drop_id map_append)
    show ?thesis
      by (simp only: disallowed_become_any_def map_append map_map c t)
  qed
  show ?thesis
    using assms stage_two_frame clear conv
    unfolding permutation_match_def Let_def
    by (auto split: option.splits if_splits prod.splits)
qed

lemma forget_matched_update:
  "map variant_text out = map variant_text (variation_moves v) \<Longrightarrow>
     forget_matched (v\<lparr>variation_moves := out\<rparr>) = forget_matched v
     \<and> (well_formed v \<longrightarrow> well_formed (v\<lparr>variation_moves := out\<rparr>))"
proof -
  assume eq: "map variant_text out = map variant_text (variation_moves v)"
  have len: "length out = length (variation_moves v)"
    using eq map_eq_imp_length_eq by blast
  have "map (\<lambda>m. m\<lparr>matched := False\<rparr>) out = map (\<lambda>m. m\<lparr>matched := False\<rparr>) (variation_moves v)"
  proof (rule nth_equalityI)
    show "length (map (\<lambda>m. m\<lparr>matched := False\<rparr>) out)
          = length (map (\<lambda>m. m\<lparr>matched := False\<rparr>) (variation_moves v))"
      using len by simp
  next
    fix i assume "i < length (map (\<lambda>m. m\<lparr>matched := False\<rparr>) out)"
    then have i: "i < length out" by simp
    have "variant_text (out ! i) = variant_text (variation_moves v ! i)"
      using eq i len by (metis nth_map)
    then show "map (\<lambda>m. m\<lparr>matched := False\<rparr>) out ! i
               = map (\<lambda>m. m\<lparr>matched := False\<rparr>) (variation_moves v) ! i"
      using i len by (simp add: variant_move.equality)
  qed
  then show ?thesis using len by (simp add: forget_matched_def well_formed_def)
qed

lemma variations_loop_frame:
  "variations_loop globals ms kept = Some (wanted, kept') \<Longrightarrow>
     map forget_matched kept' = map forget_matched kept
     \<and> (list_all well_formed kept \<longrightarrow> list_all well_formed kept')"
proof (induction kept arbitrary: wanted kept')
  case Nil
  then show ?case by simp
next
  case (Cons v kept)
  obtain w out where step:
    "(if match_permutations globals then permutation_match ms v
      else (case straight_match ms v of None \<Rightarrow> None
            | Some wanted \<Rightarrow> Some (wanted, variation_moves v))) = Some (w, out)"
    using Cons.prems by (auto split: option.splits)
  have "map variant_text out = map variant_text (variation_moves v)"
    using step permutation_match_frame [of ms v w out]
    by (auto split: if_splits option.splits)
  note upd = forget_matched_update [OF this]
  show ?case
  proof (cases w)
    case True
    then show ?thesis using Cons.prems step upd by (auto simp: Let_def)
  next
    case False
    then obtain w1 rest1 where rest: "variations_loop globals ms kept = Some (w1, rest1)"
      and res: "wanted = w1" "kept' = v\<lparr>variation_moves := out\<rparr> # rest1"
      using Cons.prems step by (auto simp: Let_def split: option.splits)
    show ?thesis using Cons.IH [OF rest] upd res by simp
  qed
qed

lemma variations_loop_stable:
  "list_all well_formed kept \<Longrightarrow> map move ms = map move ms' \<Longrightarrow>
     map_option fst (variations_loop globals ms' (map forget_matched kept))
       = map_option fst (variations_loop globals ms kept)"
proof (induction kept)
  case Nil
  show ?case by simp
next
  case (Cons v kept)
  then have wf: "well_formed v" and IH: "map_option fst (variations_loop globals ms' (map forget_matched kept))
       = map_option fst (variations_loop globals ms kept)" by simp_all
  have p: "map_option fst (permutation_match ms' (forget_matched v)) = map_option fst (permutation_match ms v)"
    using permutation_match_forget [OF wf, of ms'] permutation_match_texts [OF Cons.prems(2), of v] by simp
  have s: "straight_match ms' (forget_matched v) = straight_match ms v"
    using straight_match_stable [OF wf Cons.prems(2)] .
  show ?case
  proof (cases "match_permutations globals")
    case True
    show ?thesis
    proof (cases "permutation_match ms v")
      case None
      then show ?thesis using p True by simp
    next
      case (Some r)
      then obtain r' where "permutation_match ms' (forget_matched v) = Some r'" "fst r' = fst r"
        using p by (cases "permutation_match ms' (forget_matched v)") auto
      then show ?thesis using Some True IH
        by (cases r; cases r') (auto simp: Let_def split: option.splits)
    qed
  next
    case False
    show ?thesis
      using False s IH
      by (cases "straight_match ms v") (auto simp: Let_def split: option.splits)
  qed
qed

lemma games_run_frame:
  "games_run globals kept between = Some kept' \<Longrightarrow> list_all well_formed kept \<Longrightarrow>
     map forget_matched kept' = map forget_matched kept \<and> list_all well_formed kept'"
proof (induction between arbitrary: kept)
  case Nil
  then show ?case by simp
next
  case (Cons g between)
  then obtain w kept1 where step: "check_textual_variations globals kept g = Some (w, kept1)"
    and rest: "games_run globals kept1 between = Some kept'"
    by (auto split: option.splits)
  have "map forget_matched kept1 = map forget_matched kept \<and> list_all well_formed kept1"
    using step variations_loop_frame [of globals "moves g" kept w kept1] Cons.prems(2)
    by (auto simp: check_textual_variations_def split: if_splits)
  then show ?case using Cons.IH [OF rest] by simp
qed

lemma check_textual_variations_forget:
  assumes "list_all well_formed kept" "map move (moves g) = map move (moves g')"
  shows "map_option fst (check_textual_variations globals (map forget_matched kept) g')
         = map_option fst (check_textual_variations globals kept g)"
  using variations_loop_stable [OF assms, of globals]
  by (simp add: check_textual_variations_def)

lemma forget_idem: "forget_matched (forget_matched v) = forget_matched v"
  by (simp add: forget_matched_def comp_def)

lemma well_formed_forget: "well_formed (forget_matched v) = well_formed v"
  by (simp add: forget_matched_def well_formed_def)

lemma strstr_from_match:
  "strstr_from haystack needle i = Some j \<Longrightarrow> take (length needle) (drop j haystack) = needle"
proof (induction haystack needle i rule: strstr_from.induct)
  case (1 haystack needle i)
  then show ?case
    by (subst (asm) (2) strstr_from.simps) (auto split: if_splits)
qed

lemma textual_variation_match_from_returns:
  "move_char (first_char a) \<Longrightarrow> textual_variation_match_from v a mp \<noteq> None"
proof (induction v a mp rule: textual_variation_match_from.induct)
  case (1 v a mp)
  show ?case
  proof (cases "strstr_from v a mp")
    case None
    then show ?thesis by (subst textual_variation_match_from.simps) simp
  next
    case (Some j)
    have a: "a \<noteq> []" using 1(2) move_char_NUL by (auto simp: first_char_def char_at_def)
    have m: "take (length a) (drop j v) = a" using strstr_from_match [OF Some] .
    have jl: "j < length v" using strstr_from_bounds [OF Some] a by (cases a) auto
    have "v ! j = a ! 0"
    proof -
      have "a ! 0 = take (length a) (drop j v) ! 0" using m by simp
      also have "\<dots> = v ! j" using a jl by simp
      finally show ?thesis by simp
    qed
    then have mc: "move_char (char_at v j)"
      using 1(2) a jl by (simp add: first_char_def char_at_def)
    have adv: "skip_move_chars v j \<noteq> j"
      using skip_move_chars_bounds [of "j + 1" v] mc
      by (subst skip_move_chars.simps) simp
    have unfold: "textual_variation_match_from v a mp =
        (if match_stands_alone v a j then Some True
         else textual_variation_match_from v a (skip_move_chars v j))"
      using Some adv by (subst textual_variation_match_from.simps) (simp add: Let_def)
    show ?thesis
    proof (cases "match_stands_alone v a j")
      case True
      then show ?thesis unfolding unfold by simp
    next
      case False
      have "textual_variation_match_from v a (skip_move_chars v j) \<noteq> None"
        using 1(1) [OF Some False refl adv] 1(2) by simp
      then show ?thesis unfolding unfold using False by simp
    qed
  qed
qed

lemma returns_simps [simp]: "returns None = False" "returns (Some y) = True"
  by (simp_all add: returns_def)

lemma returns_SomeE: "returns x \<Longrightarrow> \<exists>y. x = Some y"
  by (cases x) simp_all

lemma textual_variation_match_returns:
  "move_char (first_char a) \<Longrightarrow> returns (textual_variation_match v a)"
  using textual_variation_match_from_returns [of a v 0]
  by (simp add: textual_variation_match_def returns_def)

lemma straight_loop_returns:
  "list_all plain_move ms \<Longrightarrow> returns (straight_loop v i ms)"
proof (induction ms arbitrary: i)
  case Nil
  show ?case by simp
next
  case (Cons m ms)
  then have rest: "\<And>i. returns (straight_loop v i ms)" by simp
  have "returns (textual_variation_match (variant_text (variation_moves v ! i)) (move m))"
    using textual_variation_match_returns [of "move m"] Cons.prems by (auto simp: plain_move_def)
  then show ?case using rest by (auto simp: Let_def split: option.splits)
qed

lemma disallowed_scan_returns:
  "move_char (first_char a) \<Longrightarrow> returns (disallowed_scan vs len i a)"
proof (induction vs len i a rule: disallowed_scan.induct)
  case (1 vs len i a)
  have "returns (textual_variation_match (variant_text (vs ! i)) a)"
    using textual_variation_match_returns [OF 1(3)] by blast
  then show ?case
    using 1 by (subst disallowed_scan.simps) (auto split: bool.splits option.splits)
qed

lemma find_unmatched_returns:
  "move_char (first_char a) \<Longrightarrow> returns (find_unmatched vs len i a)"
proof (induction vs len i a rule: find_unmatched.induct)
  case (1 vs len i a)
  have "returns (textual_variation_match (variant_text (vs ! i)) a)"
    using textual_variation_match_returns [OF 1(3)] by blast
  then show ?case
    using 1 by (subst find_unmatched.simps) (auto split: bool.splits option.splits)
qed

lemma stage_one_returns:
  "list_all plain_move ms \<Longrightarrow> returns (stage_one vs len t w ms)"
proof (induction ms arbitrary: t w)
  case Nil
  show ?case by simp
next
  case (Cons m ms)
  then have rest: "\<And>t w. returns (stage_one vs len t w ms)" by simp
  have "returns (disallowed_scan vs len (if w then 0 else 1) (move m))"
    using disallowed_scan_returns [of "move m"] Cons.prems by (auto simp: plain_move_def)
  then show ?case using rest by (cases w) (auto split: bool.splits option.splits)
qed

lemma stage_two_returns:
  "list_all plain_move ms \<Longrightarrow> returns (stage_two vs len wa ba k w ms)"
proof (induction ms arbitrary: vs wa ba k w)
  case Nil
  show ?case by simp
next
  case (Cons m ms)
  then have rest: "\<And>vs wa ba k w. returns (stage_two vs len wa ba k w ms)" by simp
  have "returns (find_unmatched vs len (if w then 0 else 1) (move m))"
    using find_unmatched_returns [of "move m"] Cons.prems by (auto simp: plain_move_def)
  then show ?case using rest by (cases w) (auto split: option.splits)
qed

lemma permutation_match_returns:
  "list_all plain_move ms \<Longrightarrow> returns (permutation_match ms v)"
proof -
  assume pm: "list_all plain_move ms"
  let ?len = "variation_length v"
  let ?ms0 = "clear_matched ?len (variation_moves v)"
  obtain f where f: "stage_one ?ms0 ?len 0 True ms = Some f"
    using returns_SomeE [OF stage_one_returns [OF pm]] by blast
  obtain r1 where r1: "stage_two (disallowed_become_any ?len ?ms0) ?len
       (num_white_any_moves v + count_disallowed ?len ?ms0 True)
       (num_black_any_moves v + count_disallowed ?len ?ms0 False) 0 True ms = Some r1"
    using returns_SomeE [OF stage_two_returns [OF pm]] by blast
  obtain r2 where r2: "stage_two ?ms0 ?len (num_white_any_moves v) (num_black_any_moves v) 0 True ms
       = Some r2"
    using returns_SomeE [OF stage_two_returns [OF pm]] by blast
  show ?thesis
  proof (cases "num_white_disallowed_moves v > 0 \<or> num_black_disallowed_moves v > 0")
    case True
    show ?thesis
      unfolding permutation_match_def Let_def
      using True f r1 by (cases r1) simp
  next
    case False
    show ?thesis
      unfolding permutation_match_def Let_def
      using False r2 by (cases r2) simp
  qed
qed

lemma variations_loop_returns:
  "list_all plain_move ms \<Longrightarrow> returns (variations_loop globals ms kept)"
proof (induction kept)
  case Nil
  show ?case by simp
next
  case (Cons v kept)
  have p: "returns (permutation_match ms v)"
    using permutation_match_returns [OF Cons.prems] by blast
  have i: "returns (straight_loop v 0 ms)"
    using straight_loop_returns [OF Cons.prems] by blast
  have r: "returns (variations_loop globals ms kept)"
    using Cons by blast
  show ?case
    using p i r
    by (auto simp: straight_match_def Let_def split: option.splits)
qed

lemma check_textual_variations_returns:
  "list_all plain_move (moves g) \<Longrightarrow> returns (check_textual_variations globals kept g)"
  using variations_loop_returns [of "moves g" globals kept]
  by (simp add: check_textual_variations_def)

lemma games_run_returns:
  "list_all (\<lambda>g. list_all plain_move (moves g)) between \<Longrightarrow>
     returns (games_run globals kept between)"
proof (induction between arbitrary: kept)
  case Nil
  show ?case by simp
next
  case (Cons g between)
  have "returns (check_textual_variations globals kept g)"
    using check_textual_variations_returns [of g] Cons.prems by auto
  then obtain r where "check_textual_variations globals kept g = Some r"
    using returns_SomeE by blast
  then show ?case using Cons by (cases r) auto
qed

text \<open>
  C10.  For stored variations whose \<^verbatim>\<open>length\<close> is the number of their moves and two games
  with the same move texts, \<^verbatim>\<open>check_textual_variations\<close> gives the same answer (or fails to
  return alike) for the first game on the stored variations and for the second game on the
  stored variations as any sequence of games checked in between leaves them.  When the
  text of every move of the games starts with a move character, all these calls return.
\<close>

theorem check_textual_variations_deterministic:
  assumes "list_all well_formed games_to_keep"
    and "map move (moves game1) = map move (moves game2)"
  shows "(games_run globals games_to_keep between = Some games_to_keep' \<longrightarrow>
            map_option fst (check_textual_variations globals games_to_keep' game2)
              = map_option fst (check_textual_variations globals games_to_keep game1))
       \<and> (list_all (\<lambda>g. list_all plain_move (moves g)) (game1 # between) \<longrightarrow>
            (\<exists>wanted after. check_textual_variations globals games_to_keep game1
                               = Some (wanted, after))
            \<and> (\<exists>after. games_run globals games_to_keep between = Some after))"
proof (intro conjI impI)
  assume run: "games_run globals games_to_keep between = Some games_to_keep'"
  have frame: "map forget_matched games_to_keep' = map forget_matched games_to_keep"
    and wf': "list_all well_formed games_to_keep'"
    using games_run_frame [OF run assms(1)] by simp_all
  have "map_option fst (check_textual_variations globals games_to_keep' game2)
        = map_option fst (check_textual_variations globals (map forget_matched games_to_keep') game2)"
    using check_textual_variations_forget [OF wf', of game2 game2 globals] by simp
  also have "\<dots> = map_option fst (check_textual_variations globals games_to_keep game1)"
    unfolding frame using check_textual_variations_forget [OF assms(1,2), of globals] .
  finally show "map_option fst (check_textual_variations globals games_to_keep' game2)
              = map_option fst (check_textual_variations globals games_to_keep game1)" .
next
  assume "list_all (\<lambda>g. list_all plain_move (moves g)) (game1 # between)"
  then show "\<exists>wanted after. check_textual_variations globals games_to_keep game1
                               = Some (wanted, after)"
    using returns_SomeE [OF check_textual_variations_returns [of game1 globals games_to_keep]]
    by auto
next
  assume "list_all (\<lambda>g. list_all plain_move (moves g)) (game1 # between)"
  then show "\<exists>after. games_run globals games_to_keep between = Some after"
    using returns_SomeE [OF games_run_returns [of between globals games_to_keep]]
    by auto
qed

text \<open>
  The Sicilian game is matched by the stored variation and leaves \<^verbatim>\<open>matched\<close> flags set in
  it; the Scandinavian game is refused before and after.
\<close>

theorem check_textual_variations_deterministic_witness:
  "games_run permuting_globals [sicilian_variation] [sicilian_game]
     = Some [sicilian_variation\<lparr>variation_moves :=
               [\<lparr>variant_text = ''e4'', matched = True\<rparr>,
                \<lparr>variant_text = ''c5'', matched = True\<rparr>,
                \<lparr>variant_text = ''*'', matched = False\<rparr>]\<rparr>]
   \<and> map_option fst (check_textual_variations permuting_globals [sicilian_variation] stable_game)
       = Some False
   \<and> map_option fst (check_textual_variations permuting_globals
        [sicilian_variation\<lparr>variation_moves :=
               [\<lparr>variant_text = ''e4'', matched = True\<rparr>,
                \<lparr>variant_text = ''c5'', matched = True\<rparr>,
                \<lparr>variant_text = ''*'', matched = False\<rparr>]\<rparr>] stable_game_again)
       = Some False"
proof -
  have wf: "list_all well_formed [sicilian_variation]"
    by (simp add: well_formed_def sicilian_variation_def)
  have same: "map move (moves stable_game) = map move (moves stable_game_again)"
    by (simp add: stable_game_again_def)
  have run: "games_run permuting_globals [sicilian_variation] [sicilian_game]
     = Some [sicilian_variation\<lparr>variation_moves :=
               [\<lparr>variant_text = ''e4'', matched = True\<rparr>,
                \<lparr>variant_text = ''c5'', matched = True\<rparr>,
                \<lparr>variant_text = ''*'', matched = False\<rparr>]\<rparr>]"
    by code_simp
  have first: "map_option fst (check_textual_variations permuting_globals [sicilian_variation] stable_game)
       = Some False"
    by code_simp
  show ?thesis
    using check_textual_variations_deterministic [OF wf same, of permuting_globals "[sicilian_game]",
            THEN conjunct1] run first
    by simp
qed

subsection \<open>Splitting variations\<close>

lemma only_comments_refl: "only_comments h h"
  by (simp add: only_comments_def)

lemma only_comments_trans:
  "only_comments h h1 \<Longrightarrow> only_comments h1 h2 \<Longrightarrow> only_comments h h2"
  unfolding only_comments_def by (metis le_trans)

lemma preserved_refl: "preserved h h"
  by (simp add: preserved_def)

lemma preserved_trans: "preserved h h1 \<Longrightarrow> preserved h1 h2 \<Longrightarrow> preserved h h2"
  unfolding preserved_def by (metis le_trans)

lemma only_comments_preserved: "only_comments h h' \<Longrightarrow> preserved h h'"
  by (simp add: only_comments_def preserved_def)

lemma append_comment_cases:
  assumes "append_comment n item list h = Some (l, h')"
  shows "(list = None \<and> l = item \<and> h' = h)
       \<or> (\<exists>first tail. list = Some first \<and> l = list
             \<and> last_cell n (CommentList_next h) first = Some tail
             \<and> h' = h\<lparr>CommentList_next := (CommentList_next h)(tail := item)\<rparr>)"
  using assms by (auto simp: append_comment_def split: option.splits)

lemma append_comment_only_comments:
  "append_comment n item list h = Some (l, h') \<Longrightarrow> only_comments h h'"
  by (drule append_comment_cases) (auto simp: only_comments_def)

lemma gather_variants_only_comments:
  "gather_variants n m variants h = Some h' \<Longrightarrow> only_comments h h'"
proof (induction n arbitrary: variants h)
  case 0
  then show ?case by simp
next
  case (Suc n)
  show ?case
  proof (cases variants)
    case None
    then show ?thesis using Suc.prems by (simp add: only_comments_refl)
  next
    case (Some v)
    then obtain h2 where step: "(if Variation_suffix_comment h v \<noteq> None
                 then (case append_comment n (Variation_suffix_comment h v)
                              (Move_comment_list h m) h of
                         None \<Rightarrow> None
                       | Some (l, h1) \<Rightarrow>
                           Some (h1\<lparr>Move_comment_list := (Move_comment_list h1)(m := l),
                                    Variation_suffix_comment :=
                                      (Variation_suffix_comment h1)(v := None)\<rparr>))
                 else Some h) = Some h2"
      and rest: "gather_variants n m (Variation_next h2 v) h2 = Some h'"
      using Suc.prems by (simp split: option.splits)
    have "only_comments h h2"
    proof (cases "Variation_suffix_comment h v")
      case None
      then show ?thesis using step by (simp add: only_comments_refl)
    next
      case (Some s)
      then obtain l h1 where a: "append_comment n (Some s) (Move_comment_list h m) h = Some (l, h1)"
        and h2: "h2 = h1\<lparr>Move_comment_list := (Move_comment_list h1)(m := l),
                         Variation_suffix_comment := (Variation_suffix_comment h1)(v := None)\<rparr>"
        using step by (auto split: option.splits)
      show ?thesis
        using append_comment_only_comments [OF a] unfolding h2 only_comments_def by auto
    qed
    then show ?thesis using Suc.IH [OF rest] only_comments_trans by blast
  qed
qed

lemma gather_moves_only_comments:
  "gather_moves n p h = Some h' \<Longrightarrow> only_comments h h'"
proof (induction n arbitrary: p h)
  case 0
  then show ?case by simp
next
  case (Suc n)
  show ?case
  proof (cases p)
    case None
    then show ?thesis using Suc.prems by (simp add: only_comments_refl)
  next
    case (Some m)
    then obtain h1 where a: "gather_variants n m (Move_Variants h m) h = Some h1"
      and b: "gather_moves n (Move_next h1 m) h1 = Some h'"
      using Suc.prems by (simp split: option.splits)
    show ?thesis
      using gather_variants_only_comments [OF a] Suc.IH [OF b] only_comments_trans by blast
  qed
qed

lemma format_game_fields:
  assumes "format_game n globals rewrite_game print_game h = Some h'"
  shows "Move_next h' = Move_next h" "Move_Variants h' = Move_Variants h"
    "Move_comment_list h' = Move_comment_list h"
    "Variation_prefix_comment h' = Variation_prefix_comment h"
    "Variation_suffix_comment h' = Variation_suffix_comment h"
    "Variation_moves h' = Variation_moves h" "Variation_next h' = Variation_next h"
    "game_moves h' = game_moves h" "game_tags h' RESULT_TAG = game_tags h RESULT_TAG"
    "line_number_marker globals = None \<Longrightarrow>
       CommentList_next h' = CommentList_next h \<and> game_prefix_comment h' = game_prefix_comment h
       \<and> allocated h' = allocated h"
    "line_number_marker globals \<noteq> None \<Longrightarrow>
       CommentList_next h' = (CommentList_next h)(allocated h := game_prefix_comment h)
       \<and> game_prefix_comment h' = Some (allocated h) \<and> allocated h' = Suc (allocated h)"
  using assms
  by (auto simp: format_game_def add_plycount_def add_total_plycount_def add_hashcode_tag_def
        hash_and_tags_def Let_def split: option.splits if_splits)

lemma format_game_only_comments:
  "format_game n globals rewrite_game print_game h = Some h' \<Longrightarrow> only_comments h h'"
  using format_game_fields [of n globals rewrite_game print_game h h']
  by (cases "line_number_marker globals") (simp_all add: only_comments_def)

lemma supply_result_only_comments:
  "supply_result n vm h = Some h' \<Longrightarrow> only_comments h h'"
  by (auto simp: supply_result_def only_comments_def split: option.splits if_splits)

lemma append_prefix_only_comments:
  "append_prefix n prev p h = Some h' \<Longrightarrow> only_comments h h'"
  by (auto simp: append_prefix_def only_comments_def split: option.splits
           dest!: append_comment_only_comments)

lemma remove_appended_only_comments:
  "remove_appended n prev p h = Some h' \<Longrightarrow> only_comments h h'"
  by (auto simp: remove_appended_def only_comments_def Let_def split: option.splits if_splits)

lemma replace_line_fields [simp]:
  "Move_Variants (replace_line prev line h) = Move_Variants h"
  "Move_comment_list (replace_line prev line h) = Move_comment_list h"
  "Move_terminating_result (replace_line prev line h) = Move_terminating_result h"
  "Variation_prefix_comment (replace_line prev line h) = Variation_prefix_comment h"
  "Variation_suffix_comment (replace_line prev line h) = Variation_suffix_comment h"
  "Variation_moves (replace_line prev line h) = Variation_moves h"
  "Variation_next (replace_line prev line h) = Variation_next h"
  "CommentList_next (replace_line prev line h) = CommentList_next h"
  "game_tags (replace_line prev line h) = game_tags h"
  "game_prefix_comment (replace_line prev line h) = game_prefix_comment h"
  "allocated (replace_line prev line h) = allocated h"
  "freed (replace_line prev line h) = freed h"
  "printed (replace_line prev line h) = printed h"
  by (simp_all add: replace_line_def split: option.splits)

lemma replace_line_next [simp]:
  "Move_next (replace_line (Some p) line h) = (Move_next h)(p := line)"
  "Move_next (replace_line None line h) = Move_next h"
  "game_moves (replace_line (Some p) line h) = game_moves h"
  "game_moves (replace_line None line h) = line"
  by (simp_all add: replace_line_def)

text \<open>The steps of the three loops, one case at a time.\<close>

lemma split_variants_Suc:
  assumes "split_variants (Suc n) globals rewrite_game print_game depth h = Some h'"
  obtains (limit) h1 where "gather_moves n (game_moves h) h = Some h1"
      "format_game n globals rewrite_game print_game h1 = Some h'"
      "\<not> (split_depth_limit globals = 0 \<or> split_depth_limit globals > depth)"
  | (deeper) h1 h2 h4 where "gather_moves n (game_moves h) h = Some h1"
      "format_game n globals rewrite_game print_game h1 = Some h2"
      "split_depth_limit globals = 0 \<or> split_depth_limit globals > depth"
      "moves_loop n globals rewrite_game print_game depth (game_moves h2) None
         (h2\<lparr>game_tags := (game_tags h2)(RESULT_TAG \<mapsto> ''*'')\<rparr>)
       = Some h4"
      "h' = h4\<lparr>game_tags := (game_tags h4)(RESULT_TAG := game_tags h2 RESULT_TAG)\<rparr>"
  using assms by (auto simp: Let_def split: option.splits if_splits)

lemma moves_loop_Suc:
  assumes "moves_loop (Suc n) globals rewrite_game print_game depth (Some m) prev h = Some h'"
  obtains h1 where "variants_loop n globals rewrite_game print_game depth prev (Move_Variants h m) h = Some h1"
    "moves_loop n globals rewrite_game print_game depth (Move_next (dispose_variations prev m h1) m) (Some m)
       (dispose_variations prev m h1) = Some h'"
  using assms by (auto simp: Let_def split: option.splits)

lemma variants_loop_Suc:
  assumes "variants_loop (Suc n) globals rewrite_game print_game depth prev (Some v) h = Some h'"
  obtains (empty) "Variation_moves h v = None"
      "variants_loop n globals rewrite_game print_game depth prev (Variation_next h v) h = Some h'"
  | (line) vm h1 h4 h5 h6 where "Variation_moves h v = Some vm"
      "supply_result n vm h = Some h1"
      "(if Variation_prefix_comment h v \<noteq> None
        then append_prefix n prev (Variation_prefix_comment h v)
               ((replace_line prev (Some vm) h1)\<lparr>Variation_next := (Variation_next h)(v := None)\<rparr>)
        else Some ((replace_line prev (Some vm) h1)\<lparr>Variation_next := (Variation_next h)(v := None)\<rparr>))
       = Some h4"
      "split_variants n globals rewrite_game print_game (depth + 1) h4 = Some h5"
      "(if Variation_prefix_comment h v \<noteq> None
        then remove_appended n prev (Variation_prefix_comment h v) h5 else Some h5) = Some h6"
      "variants_loop n globals rewrite_game print_game depth prev (Variation_next h v)
         (h6\<lparr>Variation_next := (Variation_next h6)(v := Variation_next h v)\<rparr>) = Some h'"
proof (cases "Variation_moves h v")
  case None
  then show ?thesis using assms empty by simp
next
  case (Some vm)
  obtain h1 where h1: "supply_result n vm h = Some h1"
    using assms Some by (auto simp: Let_def split: option.splits)
  have pc: "Variation_prefix_comment h1 = Variation_prefix_comment h"
    "Variation_next h1 = Variation_next h"
    using supply_result_only_comments [OF h1] by (simp_all add: only_comments_def)
  show ?thesis
    using assms Some h1 line [OF Some h1]
    by (simp add: Let_def pc split: option.splits cong: if_cong)
qed

lemma dispose_variations_fields [simp]:
  "Move_comment_list (dispose_variations prev m h) = Move_comment_list h"
  "Move_terminating_result (dispose_variations prev m h) = Move_terminating_result h"
  "Variation_prefix_comment (dispose_variations prev m h) = Variation_prefix_comment h"
  "Variation_suffix_comment (dispose_variations prev m h) = Variation_suffix_comment h"
  "Variation_moves (dispose_variations prev m h) = Variation_moves h"
  "Variation_next (dispose_variations prev m h) = Variation_next h"
  "CommentList_next (dispose_variations prev m h) = CommentList_next h"
  "game_tags (dispose_variations prev m h) = game_tags h"
  "game_prefix_comment (dispose_variations prev m h) = game_prefix_comment h"
  "allocated (dispose_variations prev m h) = allocated h"
  "printed (dispose_variations prev m h) = printed h"
  by (simp_all add: dispose_variations_def split: option.splits)

lemma dispose_variations_Variants [simp]:
  "Move_Variants (dispose_variations prev m h) = (Move_Variants h)(m := None)"
  by (auto simp: dispose_variations_def split: option.splits)

lemma dispose_variations_preserved: "preserved h (dispose_variations prev m h)"
  by (simp add: preserved_def)

lemma preserved_loops:
  "(\<forall>globals rewrite_game print_game depth h h'.
      split_variants n globals rewrite_game print_game depth h = Some h' \<longrightarrow> preserved h h')
   \<and> (\<forall>globals rewrite_game print_game depth this_move prev h h'.
      moves_loop n globals rewrite_game print_game depth this_move prev h = Some h' \<longrightarrow> preserved h h')
   \<and> (\<forall>globals rewrite_game print_game depth prev variants h h'.
      variants_loop n globals rewrite_game print_game depth prev variants h = Some h' \<longrightarrow> preserved h h')"
proof (induction n)
  case 0
  then show ?case by simp
next
  case (Suc n)
  note IH_split = Suc.IH [THEN conjunct1, rule_format]
  note IH_moves = Suc.IH [THEN conjunct2, THEN conjunct1, rule_format]
  note IH_variants = Suc.IH [THEN conjunct2, THEN conjunct2, rule_format]
  have split: "preserved h h'" if "split_variants (Suc n) globals rewrite_game print_game depth h = Some h'"
    for globals rewrite_game print_game depth h h'
    using that
  proof (cases rule: split_variants_Suc)
    case (limit h1)
    then show ?thesis
      using gather_moves_only_comments [of n "game_moves h" h h1]
        format_game_only_comments [of n globals rewrite_game print_game h1 h']
      by (auto intro: only_comments_preserved only_comments_trans)
  next
    case (deeper h1 h2 h4)
    have a: "only_comments h h2"
      using gather_moves_only_comments [OF deeper(1)] format_game_only_comments [OF deeper(2)]
        only_comments_trans
      by blast
    have b: "preserved (h2\<lparr>game_tags := (game_tags h2)(RESULT_TAG \<mapsto> ''*'')\<rparr>) h4"
      by (rule IH_moves [OF deeper(4)])
    have c: "preserved h2 (h4\<lparr>game_tags := (game_tags h4)(RESULT_TAG := game_tags h2 RESULT_TAG)\<rparr>)"
      using b unfolding preserved_def by simp
    show ?thesis
      unfolding deeper(5) using only_comments_preserved [OF a] c preserved_trans by blast
  qed
  have moves: "preserved h h'"
    if "moves_loop (Suc n) globals rewrite_game print_game depth this_move prev h = Some h'"
    for globals rewrite_game print_game depth this_move prev h h'
  proof (cases this_move)
    case None
    then show ?thesis using that by (simp add: preserved_refl)
  next
    case (Some m)
    from that [unfolded Some] show ?thesis
    proof (cases rule: moves_loop_Suc)
      case (1 h1)
      have "preserved h h1" by (rule IH_variants [OF 1(1)])
      moreover have "preserved h1 (dispose_variations prev m h1)" by (rule dispose_variations_preserved)
      moreover have "preserved (dispose_variations prev m h1) h'" by (rule IH_moves [OF 1(2)])
      ultimately show ?thesis using preserved_trans by blast
    qed
  qed
  have variants: "preserved h h'"
    if "variants_loop (Suc n) globals rewrite_game print_game depth prev variants h = Some h'"
    for globals rewrite_game print_game depth prev variants h h'
  proof (cases variants)
    case None
    then show ?thesis using that by (simp add: preserved_refl)
  next
    case (Some v)
    from that [unfolded Some] show ?thesis
    proof (cases rule: variants_loop_Suc)
      case empty
      then show ?thesis by (simp add: IH_variants)
    next
      case (line vm h1 h4 h5 h6)
      let ?h3 = "(replace_line prev (Some vm) h1)\<lparr>Variation_next := (Variation_next h)(v := None)\<rparr>"
      let ?h7 = "h6\<lparr>Variation_next := (Variation_next h6)(v := Variation_next h v)\<rparr>"
      have a: "only_comments h h1" by (rule supply_result_only_comments [OF line(2)])
      have b: "only_comments ?h3 h4"
        using line(3) append_prefix_only_comments only_comments_refl
        by (auto split: if_splits)
      have c: "preserved h4 h5" by (rule IH_split [OF line(4)])
      have d: "only_comments h5 h6"
        using line(5) remove_appended_only_comments only_comments_refl
        by (auto split: if_splits)
      have e: "preserved ?h7 h'" by (rule IH_variants [OF line(6)])
      have "preserved h ?h7"
        using a b c d unfolding preserved_def only_comments_def
        by (auto simp: fun_eq_iff) (metis | metis le_trans)+
      then show ?thesis using e preserved_trans by blast
    qed
  qed
  show ?case using split moves variants by blast
qed

lemmas preserved_split = preserved_loops [THEN conjunct1, rule_format]

lemmas preserved_moves = preserved_loops [THEN conjunct2, THEN conjunct1, rule_format]

lemmas preserved_variants = preserved_loops [THEN conjunct2, THEN conjunct2, rule_format]

lemma variants_loop_None:
  "variants_loop n globals rewrite_game print_game depth prev None h = Some h' \<Longrightarrow> h' = h"
  by (cases n) simp_all

text \<open>The state in which the line of a variation is written is fit for the next level.\<close>

lemma enter_variation:
  assumes lv: "levels lvl vlvl k seen h" and ps: "passed lvl k old seen prev h"
    and ou: "outer lvl k old prev h" and v: "vlvl v = k" and vm: "Variation_moves h v = Some vm"
    and h3: "Move_next h3 = Move_next (replace_line prev (Some vm) h)"
      "game_moves h3 = game_moves (replace_line prev (Some vm) h)"
      "Move_Variants h3 = Move_Variants h" "Variation_moves h3 = Variation_moves h"
      "Variation_next h3 = (Variation_next h)(v := None)"
  shows "levels lvl vlvl (Suc k) {} h3" and "outer lvl (Suc k) seen None h3"
    and "at_level lvl (Suc k) seen (game_moves h3)"
proof -
  have low: "lvl m \<le> k" if "m \<in> seen" for m
    using that ps ou unfolding passed_def outer_def by (metis less_imp_le_nat order_refl)
  have top: "lvl vm = Suc k"
    using lv v vm unfolding levels_def by (metis order_refl)
  show "levels lvl vlvl (Suc k) {} h3"
    unfolding levels_def
  proof (intro conjI allI impI)
    fix m m' assume a: "m \<notin> {}" "Suc k \<le> lvl m" "Move_next h3 m = Some m'"
    have "m \<notin> seen" using low a(2) by force
    moreover have "Some m \<noteq> prev"
      using ps low a(2) unfolding passed_def by (cases prev) force+
    then have "Move_next h3 m = Move_next h m"
      unfolding h3 by (cases prev) auto
    ultimately show "lvl m' = lvl m"
      using lv a unfolding levels_def by (metis Suc_leD)
  next
    fix m w assume "Suc k \<le> lvl m" "Move_Variants h3 m = Some w"
    then show "vlvl w = lvl m" using lv unfolding levels_def h3 by (metis Suc_leD)
  next
    fix w w' assume "Suc k \<le> vlvl w" "Variation_next h3 w = Some w'"
    then show "vlvl w' = vlvl w"
      using lv unfolding levels_def h3 by (metis Suc_leD fun_upd_apply option.distinct(1))
  next
    fix w m assume "Suc k \<le> vlvl w" "Variation_moves h3 w = Some m"
    then show "lvl m = Suc (vlvl w)" using lv unfolding levels_def h3 by (metis Suc_leD)
  qed
  show "outer lvl (Suc k) seen None h3"
    unfolding outer_def
  proof (intro ballI conjI impI allI)
    fix m assume m: "m \<in> seen"
    show "lvl m < Suc k" using low [OF m] by simp
    show "Move_Variants h3 m = None" using ps m unfolding passed_def h3 by blast
    fix m' assume n: "Move_next h3 m = Some m'"
    show "m' \<in> seen \<or> lvl m' = Suc k"
    proof (cases "Some m = prev")
      case True
      then have "Move_next h3 m = Some vm" unfolding h3 by auto
      then show ?thesis using n top by simp
    next
      case False
      then have "Move_next h3 m = Move_next h m" unfolding h3 by (cases prev) auto
      then show ?thesis using ps m n False unfolding passed_def by metis
    qed
  qed
  show "at_level lvl (Suc k) seen (game_moves h3)"
  proof (cases prev)
    case None
    then show ?thesis using top unfolding at_level_def h3 by simp
  next
    case (Some p)
    then show ?thesis using ps unfolding at_level_def h3 passed_def by simp
  qed
qed

lemma shape_but_transfer:
  assumes sh: "shape_but prev h h'" and ps: "passed lvl k old seen prev h"
    and lv: "levels lvl vlvl k seen h" and ou: "outer lvl k old prev h"
  shows "levels lvl vlvl k seen h'" and "outer lvl k old prev h'"
    and "passed lvl k old seen prev h'"
proof -
  have pv: "m \<in> seen" if "Some m = prev" for m
    using that ps unfolding passed_def by (cases prev) auto
  show "levels lvl vlvl k seen h'"
    unfolding levels_def
  proof (intro conjI allI impI)
    fix m m' assume a: "m \<notin> seen" "k \<le> lvl m" "Move_next h' m = Some m'"
    then have "Move_next h' m = Move_next h m" using sh pv unfolding shape_but_def by blast
    then have "Move_next h m = Some m'" using a by simp
    then show "lvl m' = lvl m" using lv a(1,2) unfolding levels_def by blast
  next
    fix m w assume "k \<le> lvl m" "Move_Variants h' m = Some w"
    moreover from this have "Move_Variants h m = Some w"
      using sh unfolding shape_but_def by (metis option.distinct(1))
    ultimately show "vlvl w = lvl m"
      using lv unfolding levels_def by blast
  next
    fix w w' assume "k \<le> vlvl w" "Variation_next h' w = Some w'"
    moreover from this have "Variation_next h w = Some w'"
      using sh unfolding shape_but_def by simp
    ultimately show "vlvl w' = vlvl w" using lv unfolding levels_def by blast
  next
    fix w m assume "k \<le> vlvl w" "Variation_moves h' w = Some m"
    moreover from this have "Variation_moves h w = Some m"
      using sh unfolding shape_but_def by simp
    ultimately show "lvl m = Suc (vlvl w)" using lv unfolding levels_def by blast
  qed
  have var: "Move_Variants h' m = None" if "Move_Variants h m = None" for m
    using sh that unfolding shape_but_def by metis
  have nx: "Move_next h' m = Move_next h m" if "Some m \<noteq> prev" for m
    using sh that unfolding shape_but_def by blast
  show "outer lvl k old prev h'"
    unfolding outer_def
  proof (intro ballI conjI impI allI)
    fix m assume m: "m \<in> old"
    show "lvl m < k" using ou m unfolding outer_def by blast
    show "Move_Variants h' m = None" using ou m var unfolding outer_def by blast
    fix m' assume a: "Some m \<noteq> prev" "Move_next h' m = Some m'"
    then have "Move_next h m = Some m'" using nx by simp
    then show "m' \<in> old \<or> lvl m' = k" using ou m a(1) unfolding outer_def by blast
  qed
  show "passed lvl k old seen prev h'"
    unfolding passed_def
  proof (intro ballI conjI impI allI)
    fix m assume m: "m \<in> seen"
    show "m \<in> old \<or> lvl m = k" using ps m unfolding passed_def by blast
    show "Move_Variants h' m = None" using ps m var unfolding passed_def by blast
    fix m' assume a: "Some m \<noteq> prev" "Move_next h' m = Some m'"
    then have "Move_next h m = Some m'" using nx by simp
    then show "m' \<in> seen" using ps m a(1) unfolding passed_def by blast
  next
    show "case prev of None \<Rightarrow> seen = {}
          | Some p \<Rightarrow> p \<in> seen \<and> (\<forall>m. game_moves h' = Some m \<longrightarrow> m \<in> seen)"
    proof (cases prev)
      case None
      then show ?thesis using ps unfolding passed_def by simp
    next
      case (Some p)
      then have "game_moves h' = game_moves h" using sh unfolding shape_but_def by simp
      then show ?thesis using ps Some unfolding passed_def by simp
    qed
  qed
qed

lemma only_comments_shape_but: "only_comments h h' \<Longrightarrow> shape_but prev h h'"
  by (simp add: only_comments_def shape_but_def)

lemma dispose_variations_next:
  "Move_next (dispose_variations prev m h) =
     (if Move_Variants h m = None then Move_next h
      else Move_next (replace_line prev (Some m) h))"
  "game_moves (dispose_variations prev m h) =
     (if Move_Variants h m = None then game_moves h
      else game_moves (replace_line prev (Some m) h))"
  by (auto simp: dispose_variations_def replace_line_def split: option.splits)

text \<open>One round of the loop over the main line.\<close>

lemma moves_loop_round:
  assumes lv: "levels lvl vlvl k seen h" and ou: "outer lvl k old prev h"
    and ps: "passed lvl k old seen prev h" and lf: "line_from prev h = Some m"
    and al: "at_level lvl k old (Some m)"
    and rb: "restored_but lvl k prev h h1" and kp: "preserved h h1"
    and un: "Move_Variants h m = None \<longrightarrow> h1 = h"
  defines "h2 \<equiv> dispose_variations prev m h1"
  shows "Move_next h2 = Move_next h" and "game_moves h2 = game_moves h"
    and "\<forall>x. lvl x < k \<longrightarrow> Move_Variants h2 x = Move_Variants h x"
    and "levels lvl vlvl k (insert m seen) h2" and "outer lvl k old (Some m) h2"
    and "passed lvl k old (insert m seen) (Some m) h2"
    and "at_level lvl k old (Move_next h2 m)"
proof -
  have ou1: "lvl x < k" "Move_Variants h x = None" if "x \<in> old" for x
    using ou that unfolding outer_def by blast+
  have ou2: "m' \<in> old \<or> lvl m' = k"
    if "x \<in> old" "Some x \<noteq> prev" "Move_next h x = Some m'" for x m'
    using ou that unfolding outer_def by blast
  have ps1: "x \<in> old \<or> lvl x = k" "Move_Variants h x = None" if "x \<in> seen" for x
    using ps that unfolding passed_def by blast+
  have ps2: "m' \<in> seen" if "x \<in> seen" "Some x \<noteq> prev" "Move_next h x = Some m'" for x m'
    using ps that unfolding passed_def by blast
  have ml: "m \<in> old \<or> lvl m = k" using al unfolding at_level_def by simp
  have mk: "lvl m \<le> k" using ml ou1(1) by force
  have var: "Move_Variants h1 m = Move_Variants h m"
    using rb mk unfolding restored_but_def by blast
  show nx: "Move_next h2 = Move_next h"
  proof (cases "Move_Variants h m")
    case None
    then show ?thesis using un var by (simp add: h2_def dispose_variations_next)
  next
    case (Some w)
    show ?thesis
    proof (cases prev)
      case None
      then show ?thesis
        using rb Some var unfolding restored_but_def h2_def
        by (auto simp: dispose_variations_next fun_eq_iff)
    next
      case (Some p)
      then have "Move_next h p = Some m" using lf by (simp add: line_from_def)
      then show ?thesis
        using rb Some var \<open>Move_Variants h m = Some w\<close> unfolding restored_but_def h2_def
        by (auto simp: dispose_variations_next fun_eq_iff)
    qed
  qed
  show gm: "game_moves h2 = game_moves h"
  proof (cases "Move_Variants h m")
    case None
    then show ?thesis using un var by (simp add: h2_def dispose_variations_next)
  next
    case (Some w)
    show ?thesis
    proof (cases prev)
      case None
      then have "game_moves h = Some m" using lf by (simp add: line_from_def)
      then show ?thesis
        using Some var None unfolding h2_def by (simp add: dispose_variations_next)
    next
      case (Some p)
      then show ?thesis
        using rb var \<open>Move_Variants h m = Some w\<close> unfolding restored_but_def h2_def
        by (simp add: dispose_variations_next)
    qed
  qed
  show low: "\<forall>x. lvl x < k \<longrightarrow> Move_Variants h2 x = Move_Variants h x"
  proof (intro allI impI)
    fix x assume x: "lvl x < k"
    then have a: "Move_Variants h1 x = Move_Variants h x"
      using rb unfolding restored_but_def by simp
    show "Move_Variants h2 x = Move_Variants h x"
    proof (cases "x = m")
      case True
      then have "m \<in> old" using ml x by auto
      then have "Move_Variants h m = None" using ou1(2) by blast
      then show ?thesis using True a by (simp add: h2_def)
    next
      case False
      then show ?thesis using a by (simp add: h2_def)
    qed
  qed
  have mono: "Move_Variants h2 x = None \<or> Move_Variants h2 x = Move_Variants h x" for x
    using kp unfolding preserved_def h2_def by (cases "x = m") auto
  have vn: "Variation_next h2 = Variation_next h" "Variation_moves h2 = Variation_moves h"
    using kp unfolding preserved_def h2_def by simp_all
  have sh: "shape_but prev h h2"
    unfolding shape_but_def using nx gm vn mono by simp
  note tr = shape_but_transfer [OF sh ps lv ou]
  show "levels lvl vlvl k (insert m seen) h2"
    using tr(1) unfolding levels_def by blast
  have pm: "Move_next h p = Some m" if "prev = Some p" for p
    using lf that by (simp add: line_from_def)
  show "outer lvl k old (Some m) h2"
    unfolding outer_def
  proof (intro ballI conjI impI allI)
    fix x assume x: "x \<in> old"
    show "lvl x < k" "Move_Variants h2 x = None" using tr(2) x unfolding outer_def by blast+
    fix m' assume a: "Some x \<noteq> Some m" "Move_next h2 x = Some m'"
    show "m' \<in> old \<or> lvl m' = k"
    proof (cases "Some x = prev")
      case True
      then have "m' = m" using pm [of x] a nx by simp
      then show ?thesis using ml by simp
    next
      case False
      then show ?thesis using ou2 [OF x False] a nx by simp
    qed
  qed
  have seen_level: "x \<in> old \<or> lvl x = k" if "x \<in> insert m seen" for x
    using that ml ps1(1) by auto
  show "passed lvl k old (insert m seen) (Some m) h2"
    unfolding passed_def
  proof (intro conjI ballI impI allI)
    fix x assume x: "x \<in> insert m seen"
    show "x \<in> old \<or> lvl x = k" using seen_level [OF x] .
    show "Move_Variants h2 x = None"
    proof (cases "x = m")
      case True
      then show ?thesis by (simp add: h2_def)
    next
      case False
      then show ?thesis using x tr(3) unfolding passed_def by blast
    qed
    fix m' assume a: "Some x \<noteq> Some m" "Move_next h2 x = Some m'"
    then have xs: "x \<in> seen" using x by auto
    show "m' \<in> insert m seen"
    proof (cases "Some x = prev")
      case True
      then have "m' = m" using pm [of x] a nx by simp
      then show ?thesis by simp
    next
      case False
      then show ?thesis using ps2 [OF xs False] a nx by simp
    qed
  next
    show "case Some m of None \<Rightarrow> insert m seen = {}
          | Some p \<Rightarrow> p \<in> insert m seen \<and> (\<forall>ma. game_moves h2 = Some ma \<longrightarrow> ma \<in> insert m seen)"
      using ps lf gm unfolding passed_def line_from_def by (cases prev) auto
  qed
  show "at_level lvl k old (Move_next h2 m)"
    unfolding at_level_def
  proof (intro allI impI)
    fix m' assume n: "Move_next h2 m = Some m'"
    show "m' \<in> old \<or> lvl m' = k"
    proof (cases "m \<in> seen")
      case True
      show ?thesis
      proof (cases "Some m = prev")
        case True
        then have "m' = m" using pm [of m] n nx by simp
        then show ?thesis using ml by simp
      next
        case False
        then have "m' \<in> seen" using ps2 [OF True False] n nx by simp
        then show ?thesis using ps1(1) by blast
      qed
    next
      case False
      show ?thesis
      proof (cases "m \<in> old")
        case True
        show ?thesis
        proof (cases "Some m = prev")
          case True
          then have "m' = m" using pm [of m] n nx by simp
          then show ?thesis using ml by simp
        next
          case False
          then show ?thesis using ou2 [OF True False] n nx by simp
        qed
      next
        case notold: False
        then have "lvl m = k" using ml by simp
        moreover have "Move_next h m = Some m'" using n nx by simp
        ultimately show ?thesis using lv False unfolding levels_def by (metis order_refl)
      qed
    qed
  qed
qed

lemma restored_but_trans:
  "restored_but lvl k prev h h1 \<Longrightarrow> restored_but lvl k prev h1 h2 \<Longrightarrow> restored_but lvl k prev h h2"
  by (simp add: restored_but_def)

text \<open>One round of the loop over the variations of a move.\<close>

lemma variants_loop_round:
  assumes a: "only_comments h h1"
    and b: "only_comments
              ((replace_line prev (Some vm) h1)\<lparr>Variation_next := (Variation_next h)(v := None)\<rparr>) h4"
    and rec: "restored lvl (Suc k) h4 h5" and kp: "preserved h4 h5"
    and d: "only_comments h5 h6"
  defines "h7 \<equiv> h6\<lparr>Variation_next := (Variation_next h6)(v := Variation_next h v)\<rparr>"
  shows "shape_but prev h h7" and "restored_but lvl k prev h h7" and "preserved h h7"
    and "Move_next h4 = Move_next (replace_line prev (Some vm) h)"
    and "game_moves h4 = game_moves (replace_line prev (Some vm) h)"
    and "Move_Variants h4 = Move_Variants h" and "Variation_moves h4 = Variation_moves h"
    and "Variation_next h4 = (Variation_next h)(v := None)"
proof -
  show n4: "Move_next h4 = Move_next (replace_line prev (Some vm) h)"
    using a b unfolding only_comments_def by (cases prev) simp_all
  show g4: "game_moves h4 = game_moves (replace_line prev (Some vm) h)"
    using a b unfolding only_comments_def by (cases prev) simp_all
  show v4: "Move_Variants h4 = Move_Variants h" and m4: "Variation_moves h4 = Variation_moves h"
    and x4: "Variation_next h4 = (Variation_next h)(v := None)"
    using a b unfolding only_comments_def by simp_all
  have n7: "Move_next h7 = Move_next h4" and g7: "game_moves h7 = game_moves h4"
    using rec d unfolding restored_def only_comments_def h7_def by simp_all
  have x7: "Variation_next h7 = Variation_next h"
    using kp d x4 unfolding preserved_def only_comments_def h7_def by (simp add: fun_eq_iff)
  have m7: "Variation_moves h7 = Variation_moves h"
    using kp d m4 unfolding preserved_def only_comments_def h7_def by simp
  have v7: "Move_Variants h7 = Move_Variants h5"
    using d unfolding only_comments_def h7_def by simp
  have mono: "Move_Variants h7 m = None \<or> Move_Variants h7 m = Move_Variants h m" for m
    using kp v4 v7 unfolding preserved_def by metis
  have nx: "Move_next h7 m = Move_next h m" if "Some m \<noteq> prev" for m
    using that n7 n4 by (cases prev) auto
  have gm: "game_moves h7 = game_moves h" if "prev \<noteq> None"
    using that g7 g4 by (cases prev) auto
  show "shape_but prev h h7"
    unfolding shape_but_def using nx gm x7 m7 mono by blast
  have "Move_Variants h7 m = Move_Variants h m" if "lvl m \<le> k" for m
    using that rec v4 v7 unfolding restored_def by simp
  then show "restored_but lvl k prev h h7"
    unfolding restored_but_def using nx gm by blast
  have s7: "Variation_suffix_comment h7 w = None
            \<or> Variation_suffix_comment h7 w = Variation_suffix_comment h w" for w
  proof -
    have "Variation_suffix_comment h1 w = None
          \<or> Variation_suffix_comment h1 w = Variation_suffix_comment h w"
      using a unfolding only_comments_def by blast
    moreover have "Variation_suffix_comment h4 w = None
          \<or> Variation_suffix_comment h4 w = Variation_suffix_comment h1 w"
      using b unfolding only_comments_def by simp
    moreover have "Variation_suffix_comment h5 w = None
          \<or> Variation_suffix_comment h5 w = Variation_suffix_comment h4 w"
      using kp unfolding preserved_def by blast
    moreover have "Variation_suffix_comment h7 w = None
          \<or> Variation_suffix_comment h7 w = Variation_suffix_comment h5 w"
      using d unfolding only_comments_def h7_def by simp
    ultimately show ?thesis by metis
  qed
  have al: "allocated h \<le> allocated h7"
    using a b kp d unfolding only_comments_def preserved_def h7_def by simp
  have pc: "Variation_prefix_comment h7 = Variation_prefix_comment h"
    and tg: "game_tags h7 RESULT_TAG = game_tags h RESULT_TAG"
    using a b kp d unfolding only_comments_def preserved_def h7_def by simp_all
  show "preserved h h7"
    unfolding preserved_def using m7 pc x7 tg mono s7 al by blast
qed

text \<open>
  The three loops put the \<^verbatim>\<open>next\<close> pointers and \<^verbatim>\<open>game->moves\<close> back, and leave the
  variations of the moves above the level alone.
\<close>

lemma restored_loops:
  "(\<forall>globals rewrite_game print_game depth k old h h'.
      split_variants n globals rewrite_game print_game depth h = Some h' \<longrightarrow>
      levels lvl vlvl k {} h \<longrightarrow> outer lvl k old None h \<longrightarrow>
      at_level lvl k old (game_moves h) \<longrightarrow> restored lvl k h h')
   \<and> (\<forall>globals rewrite_game print_game depth k old seen this_move prev h h'.
      moves_loop n globals rewrite_game print_game depth this_move prev h = Some h' \<longrightarrow>
      levels lvl vlvl k seen h \<longrightarrow> outer lvl k old prev h \<longrightarrow>
      passed lvl k old seen prev h \<longrightarrow> line_from prev h = this_move \<longrightarrow>
      at_level lvl k old this_move \<longrightarrow> restored lvl k h h')
   \<and> (\<forall>globals rewrite_game print_game depth k old seen prev variants h h'.
      variants_loop n globals rewrite_game print_game depth prev variants h = Some h' \<longrightarrow>
      levels lvl vlvl k seen h \<longrightarrow> outer lvl k old prev h \<longrightarrow>
      passed lvl k old seen prev h \<longrightarrow> (\<forall>v. variants = Some v \<longrightarrow> vlvl v = k) \<longrightarrow>
      restored_but lvl k prev h h')"
proof (induction n)
  case 0
  then show ?case by simp
next
  case (Suc n)
  note IH_split = Suc.IH [THEN conjunct1, rule_format]
  note IH_moves = Suc.IH [THEN conjunct2, THEN conjunct1, rule_format]
  note IH_variants = Suc.IH [THEN conjunct2, THEN conjunct2, rule_format]
  have split: "restored lvl k h h'"
    if run: "split_variants (Suc n) globals rewrite_game print_game depth h = Some h'"
      and lv: "levels lvl vlvl k {} h" and ou: "outer lvl k old None h"
      and al: "at_level lvl k old (game_moves h)"
    for globals rewrite_game print_game depth k old h h'
    using run
  proof (cases rule: split_variants_Suc)
    case (limit h1)
    then show ?thesis
      using gather_moves_only_comments [of n "game_moves h" h h1]
        format_game_only_comments [of n globals rewrite_game print_game h1 h']
      by (simp add: only_comments_def restored_def)
  next
    case (deeper h1 h2 h4)
    let ?h2 = "h2"
    let ?h3 = "?h2\<lparr>game_tags := (game_tags ?h2)(RESULT_TAG \<mapsto> ''*'')\<rparr>"
    have a: "only_comments h ?h2"
      using gather_moves_only_comments [OF deeper(1)] format_game_only_comments [OF deeper(2)]
        only_comments_trans
      by blast
    have sh: "shape_but None h ?h3"
      using a by (simp add: only_comments_def shape_but_def)
    have ps: "passed lvl k old {} None h" by (simp add: passed_def)
    note tr = shape_but_transfer [OF sh ps lv ou]
    have gm: "game_moves ?h3 = game_moves h" "Move_next ?h3 = Move_next h"
      "Move_Variants ?h3 = Move_Variants h"
      using a by (simp_all add: only_comments_def)
    have "restored lvl k ?h3 h4"
    proof (rule IH_moves [OF deeper(4) tr])
      show "line_from None ?h3 = game_moves ?h2" by (simp add: line_from_def)
      show "at_level lvl k old (game_moves ?h2)" using al gm(1) by simp
    qed
    then show ?thesis
      using gm unfolding deeper(5) restored_def by simp
  qed
  have moves: "restored lvl k h h'"
    if run: "moves_loop (Suc n) globals rewrite_game print_game depth this_move prev h = Some h'"
      and lv: "levels lvl vlvl k seen h" and ou: "outer lvl k old prev h"
      and ps: "passed lvl k old seen prev h" and lf: "line_from prev h = this_move"
      and al: "at_level lvl k old this_move"
    for globals rewrite_game print_game depth k old seen this_move prev h h'
  proof (cases this_move)
    case None
    then show ?thesis using run by (simp add: restored_def)
  next
    case (Some m)
    from run [unfolded Some] show ?thesis
    proof (cases rule: moves_loop_Suc)
      case (1 h1)
      have vl: "\<forall>v. Move_Variants h m = Some v \<longrightarrow> vlvl v = k"
      proof (intro allI impI)
        fix v assume v: "Move_Variants h m = Some v"
        then have "m \<notin> old" using ou unfolding outer_def by force
        then have "lvl m = k" using al Some unfolding at_level_def by simp
        then show "vlvl v = k" using lv v unfolding levels_def by (metis order_refl)
      qed
      have rb: "restored_but lvl k prev h h1"
        using IH_variants [OF 1(1) lv ou ps] vl by blast
      have kp: "preserved h h1" by (rule preserved_variants [OF 1(1)])
      have un: "Move_Variants h m = None \<longrightarrow> h1 = h"
        using 1(1) variants_loop_None by auto
      note round = moves_loop_round [OF lv ou ps lf [unfolded Some] al [unfolded Some] rb kp un]
      have "restored lvl k (dispose_variations prev m h1) h'"
      proof (rule IH_moves [OF 1(2) round(4-6)])
        show "line_from (Some m) (dispose_variations prev m h1)
              = Move_next (dispose_variations prev m h1) m"
          by (simp add: line_from_def)
        show "at_level lvl k old (Move_next (dispose_variations prev m h1) m)"
          by (rule round(7))
      qed
      then show ?thesis
        using round(1-3) unfolding restored_def by simp
    qed
  qed
  have variants: "restored_but lvl k prev h h'"
    if run: "variants_loop (Suc n) globals rewrite_game print_game depth prev variants h = Some h'"
      and lv: "levels lvl vlvl k seen h" and ou: "outer lvl k old prev h"
      and ps: "passed lvl k old seen prev h" and vl: "\<forall>v. variants = Some v \<longrightarrow> vlvl v = k"
    for globals rewrite_game print_game depth k old seen prev variants h h'
  proof (cases variants)
    case None
    then show ?thesis using run by (simp add: restored_but_def)
  next
    case (Some v)
    have vk: "vlvl v = k" using vl Some by simp
    have nk: "\<forall>w. Variation_next h v = Some w \<longrightarrow> vlvl w = k"
      using lv vk unfolding levels_def by (metis order_refl)
    from run [unfolded Some] show ?thesis
    proof (cases rule: variants_loop_Suc)
      case empty
      show ?thesis using IH_variants [OF empty(2) lv ou ps] nk by blast
    next
      case (line vm h1 h4 h5 h6)
      let ?h3 = "(replace_line prev (Some vm) h1)\<lparr>Variation_next := (Variation_next h)(v := None)\<rparr>"
      let ?h7 = "h6\<lparr>Variation_next := (Variation_next h6)(v := Variation_next h v)\<rparr>"
      have a: "only_comments h h1" by (rule supply_result_only_comments [OF line(2)])
      have b: "only_comments ?h3 h4"
        using line(3) append_prefix_only_comments only_comments_refl
        by (auto split: if_splits)
      have d: "only_comments h5 h6"
        using line(5) remove_appended_only_comments only_comments_refl
        by (auto split: if_splits)
      have kp: "preserved h4 h5" by (rule preserved_split [OF line(4)])
      have pre: "Move_next h4 = Move_next (replace_line prev (Some vm) h)"
        "game_moves h4 = game_moves (replace_line prev (Some vm) h)"
        "Move_Variants h4 = Move_Variants h" "Variation_moves h4 = Variation_moves h"
        "Variation_next h4 = (Variation_next h)(v := None)"
        using a b unfolding only_comments_def by (cases prev; simp)+
      note en = enter_variation [OF lv ps ou vk line(1) pre]
      have rec: "restored lvl (Suc k) h4 h5"
        by (rule IH_split [OF line(4) en])
      note round = variants_loop_round [OF a b rec kp d]
      note tr = shape_but_transfer [OF round(1) ps lv ou]
      have "restored_but lvl k prev ?h7 h'"
        using IH_variants [OF line(6) tr] nk by blast
      then show ?thesis using round(2) restored_but_trans by blast
    qed
  qed
  show ?case
    by (intro conjI allI impI) (rule split moves variants; assumption)+
qed





































lemmas restored_moves = restored_loops [THEN conjunct2, THEN conjunct1, rule_format]












end
